(* ===== verification/Prelude.thy ===== *)
theory Prelude
  imports Main "HOL-Library.AList" "HOL-Library.Multiset" "HOL-Library.Product_Lexorder"
begin

text \<open>
  Shared vocabulary of the development: Go maps and the arbitrary order in which
  \<open>range\<close> visits them, saturating time arithmetic, the string functions of Go's
  standard library that the daemon uses, and the interface of a transition system with an
  invariant. Collections of named theorems gather the facts the component theories
  hand to the simplifier.
\<close>

named_theorems go_map \<open>facts about association lists that stand for Go maps\<close>
named_theorems go_string \<open>facts about Go's string functions\<close>
named_theorems frame \<open>fields an operation leaves alone\<close>

section \<open>Go maps and their iteration order\<close>

text \<open>
  A Go map is an association list with distinct keys. Assignment is \<open>AList.update\<close>,
  \<open>delete\<close> is \<open>AList.delete\<close>, the lookup is \<open>map_of\<close>. A \<open>range\<close> over
  a map visits every entry once, in an order the language leaves open: every operation
  that ranges over a map takes a \<open>visit\<close> function, which is any permutation.
\<close>

type_synonym ('k, 'v) gomap = "('k \<times> 'v) list"
type_synonym 'a visit = "'a list \<Rightarrow> 'a list"

definition range_order :: "'a visit \<Rightarrow> bool" where
  "range_order visit \<longleftrightarrow> (\<forall>xs. mset (visit xs) = mset xs)"

abbreviation map_wf :: "('k, 'v) gomap \<Rightarrow> bool" where
  "map_wf m \<equiv> distinct (map fst m)"

lemma range_order_id [simp]: "range_order (\<lambda>xs. xs)" and range_order_rev [simp]: "range_order rev"
  by (simp_all add: range_order_def)

lemma range_order_set: "range_order visit \<Longrightarrow> set (visit xs) = set xs"
  by (metis range_order_def set_mset_mset)

lemma range_order_length: "range_order visit \<Longrightarrow> length (visit xs) = length xs"
  by (metis range_order_def size_mset)

lemma range_order_distinct: "range_order visit \<Longrightarrow> distinct (visit xs) = distinct xs"
  by (metis range_order_def mset_eq_imp_distinct_iff)

lemma range_order_Nil: "range_order visit \<Longrightarrow> visit xs = [] \<longleftrightarrow> xs = []"
  by (metis range_order_def mset_zero_iff)

lemma range_order_single: "range_order visit \<Longrightarrow> visit [x] = [x]"
  by (metis mset_single_iff_right range_order_def)

lemmas range_order_simps = range_order_set range_order_length range_order_distinct range_order_Nil

lemma map_of_update [go_map, simp]:
  "map_of (AList.update k v m) k' = (if k' = k then Some v else map_of m k')"
  by (simp add: update_conv')

lemma map_of_delete_if [go_map]:
  "map_of (AList.delete k m) k' = (if k' = k then None else map_of m k')"
  by (simp add: delete_conv')

lemma map_wf_update [go_map, simp]: "map_wf m \<Longrightarrow> map_wf (AList.update k v m)"
  by (rule distinct_update)

lemma map_wf_delete [go_map, simp]: "map_wf m \<Longrightarrow> map_wf (AList.delete k m)"
  by (rule distinct_delete)

lemma keys_update [go_map]: "fst ` set (AList.update k v m) = insert k (fst ` set m)"
  by (simp add: dom_update)

lemma set_delete [go_map]: "set (AList.delete k m) = {e \<in> set m. fst e \<noteq> k}"
  by (auto simp: AList.delete_eq)

lemma map_wf_mem_iff: "map_wf m \<Longrightarrow> (k, v) \<in> set m \<longleftrightarrow> map_of m k = Some v"
  by (metis map_of_eq_Some_iff)

lemma map_of_eq_map_ext:
  assumes "map fst m = map fst m'" and "\<And>k. k \<in> fst ` set m \<Longrightarrow> map_of m k = map_of m' k"
    and "map_wf m"
  shows "m = m'"
  using assms
proof (induction m arbitrary: m')
  case Nil
  then show ?case by simp
next
  case (Cons e m)
  then obtain v' m1 where m': "m' = (fst e, v') # m1" and keys: "map fst m = map fst m1"
    by (cases m') auto
  from Cons.prems(2) [of "fst e"] m' have "snd e = v'" by (cases e) auto
  moreover have "m = m1"
  proof (rule Cons.IH [OF keys])
    fix k assume k: "k \<in> fst ` set m"
    with Cons.prems(3) have "k \<noteq> fst e" by (metis distinct.simps(2) list.simps(9) list.set_map)
    with Cons.prems(2) [of k] k m' show "map_of m k = map_of m1 k" by (cases e) auto
  qed (use Cons.prems(3) in simp)
  ultimately show ?case using m' by (cases e) simp
qed

section \<open>Time\<close>

text \<open>
  A \<open>time.Time\<close> is an instant in nanoseconds. \<open>Time.Sub\<close> saturates at the ends
  of the 64-bit \<open>time.Duration\<close>.
\<close>

type_synonym Time = int
type_synonym Duration = int

definition minDuration :: Duration where "minDuration = - (2 ^ 63)"
definition maxDuration :: Duration where "maxDuration = 2 ^ 63 - 1"

definition time_After :: "Time \<Rightarrow> Time \<Rightarrow> bool" where
  "time_After a b \<longleftrightarrow> b < a"

definition time_Sub :: "Time \<Rightarrow> Time \<Rightarrow> Duration" where
  "time_Sub a b = max minDuration (min maxDuration (a - b))"

lemma time_Sub_greater:
  "minDuration \<le> d \<Longrightarrow> d < maxDuration \<Longrightarrow> time_Sub a b > d \<longleftrightarrow> a - b > d"
  by (auto simp: time_Sub_def)

definition nanosecond :: Duration where "nanosecond = 1"
definition millisecond :: Duration where "millisecond = 1000000 * nanosecond"
definition second :: Duration where "second = 1000 * millisecond"
definition minute :: Duration where "minute = 60 * second"

section \<open>Strings\<close>

text \<open>A Go string is a sequence of bytes: an Isabelle \<open>string\<close>.\<close>

definition HasPrefix :: "string \<Rightarrow> string \<Rightarrow> bool" where
  "HasPrefix s pre \<longleftrightarrow> take (length pre) s = pre"

text \<open>\<open>strings.IndexByte\<close>, with \<open>None\<close> for the result -1.\<close>

fun IndexByte :: "string \<Rightarrow> char \<Rightarrow> nat option" where
  "IndexByte [] c = None"
| "IndexByte (x # xs) c = (if x = c then Some 0 else map_option Suc (IndexByte xs c))"

text \<open>\<open>strings.Split\<close> at a one-byte separator: always at least one field.\<close>

fun Split :: "string \<Rightarrow> char \<Rightarrow> string list" where
  "Split [] c = [[]]"
| "Split (x # xs) c =
     (if x = c then [] # Split xs c
      else (case Split xs c of [] \<Rightarrow> [[x]] | f # fs \<Rightarrow> (x # f) # fs))"

fun Join :: "string list \<Rightarrow> string \<Rightarrow> string" where
  "Join [] sep = []"
| "Join [x] sep = x"
| "Join (x # y # ys) sep = x @ sep @ Join (y # ys) sep"

definition TrimRightByte :: "string \<Rightarrow> char \<Rightarrow> string" where
  "TrimRightByte s c = rev (dropWhile (\<lambda>x. x = c) (rev s))"

lemma Split_nonempty [go_string, simp]: "Split s c \<noteq> []"
  by (cases s) (auto split: list.splits)

lemma Join_Split [go_string]: "Join (Split s c) [c] = s"
proof (induction s)
  case Nil
  then show ?case by simp
next
  case (Cons x s)
  then show ?case by (cases "Split s c"; cases "tl (Split s c)") auto
qed

lemma Split_notin [go_string]: "c \<notin> set f \<Longrightarrow> Split f c = [f]"
  by (induction f) auto

lemma Split_append [go_string]: "c \<notin> set f \<Longrightarrow> Split (f @ c # s) c = f # Split s c"
  by (induction f) auto

lemma Split_fields: "f \<in> set (Split s c) \<Longrightarrow> c \<notin> set f"
proof (induction s arbitrary: f)
  case Nil
  then show ?case by simp
next
  case (Cons x s)
  then show ?case by (cases "Split s c") (auto split: if_splits)
qed

lemma Split_Join [go_string]:
  "fs \<noteq> [] \<Longrightarrow> \<forall>f \<in> set fs. c \<notin> set f \<Longrightarrow> Split (Join fs [c]) c = fs"
  by (induction fs "[c]" rule: Join.induct) (auto simp: Split_notin Split_append)

lemma IndexByte_Some [go_string]:
  "IndexByte s c = Some i \<longleftrightarrow> i < length s \<and> s ! i = c \<and> c \<notin> set (take i s)"
proof (induction s arbitrary: i)
  case Nil
  then show ?case by simp
next
  case (Cons x s)
  then show ?case by (cases i) (auto simp: take_Suc_conv_app_nth)
qed

text \<open>
  \<open>strings.TrimSpace\<close> removes the UTF-8 encodings of Unicode's white space from both ends.
\<close>

definition space_runes :: "string list" where
  "space_runes = [[CHR 0x09], [CHR 0x0A], [CHR 0x0B], [CHR 0x0C], [CHR 0x0D], [CHR 0x20],
     [CHR 0xC2, CHR 0x85], [CHR 0xC2, CHR 0xA0], [CHR 0xE1, CHR 0x9A, CHR 0x80],
     [CHR 0xE2, CHR 0x80, CHR 0x80], [CHR 0xE2, CHR 0x80, CHR 0x81], [CHR 0xE2, CHR 0x80, CHR 0x82],
     [CHR 0xE2, CHR 0x80, CHR 0x83], [CHR 0xE2, CHR 0x80, CHR 0x84], [CHR 0xE2, CHR 0x80, CHR 0x85],
     [CHR 0xE2, CHR 0x80, CHR 0x86], [CHR 0xE2, CHR 0x80, CHR 0x87], [CHR 0xE2, CHR 0x80, CHR 0x88],
     [CHR 0xE2, CHR 0x80, CHR 0x89], [CHR 0xE2, CHR 0x80, CHR 0x8A], [CHR 0xE2, CHR 0x80, CHR 0xA8],
     [CHR 0xE2, CHR 0x80, CHR 0xA9], [CHR 0xE2, CHR 0x80, CHR 0xAF], [CHR 0xE2, CHR 0x81, CHR 0x9F],
     [CHR 0xE3, CHR 0x80, CHR 0x80]]"

function trim_runes :: "string list \<Rightarrow> string \<Rightarrow> string" where
  "trim_runes rs s =
     (case find (\<lambda>r. r \<noteq> [] \<and> HasPrefix s r) rs of
        None \<Rightarrow> s
      | Some r \<Rightarrow> trim_runes rs (drop (length r) s))"
  by pat_completeness auto
termination
  by (relation "measure (\<lambda>(rs, s). length s)")
     (auto simp: find_Some_iff HasPrefix_def intro: Nat.diff_less)

declare trim_runes.simps [simp del]

lemma trim_runes_Nil [simp]: "trim_runes rs [] = []"
proof -
  have "find (\<lambda>r. r \<noteq> [] \<and> HasPrefix [] r) rs = None"
    by (auto simp: find_None_iff HasPrefix_def)
  then show ?thesis by (subst trim_runes.simps) simp
qed

definition TrimSpace :: "string \<Rightarrow> string" where
  "TrimSpace s = rev (trim_runes (map rev space_runes) (rev (trim_runes space_runes s)))"

definition space_bytes :: "char set" where
  "space_bytes = \<Union> (set ` set space_runes)"

lemma trim_runes_keeps:
  "c \<in> set s \<Longrightarrow> c \<notin> \<Union> (set ` set rs) \<Longrightarrow> c \<in> set (trim_runes rs s)"
proof (induction rs s rule: trim_runes.induct)
  case (1 rs s)
  show ?case
  proof (cases "find (\<lambda>r. r \<noteq> [] \<and> HasPrefix s r) rs")
    case None
    with 1 show ?thesis by (subst trim_runes.simps) simp
  next
    case (Some r)
    then have r: "r \<in> set rs" "take (length r) s = r"
      by (auto simp: find_Some_iff HasPrefix_def)
    from 1(2) have "c \<in> set (take (length r) s @ drop (length r) s)" by simp
    with r 1(3) have "c \<in> set (drop (length r) s)"
      unfolding set_append by auto
    with 1 Some show ?thesis by (subst trim_runes.simps) simp
  qed
qed

lemma TrimSpace_keeps:
  assumes "c \<in> set s" and "c \<notin> space_bytes"
  shows "c \<in> set (TrimSpace s)"
proof -
  have "c \<in> set (trim_runes space_runes s)"
    using assms by (intro trim_runes_keeps) (auto simp: space_bytes_def)
  then have "c \<in> set (trim_runes (map rev space_runes) (rev (trim_runes space_runes s)))"
    using assms(2) by (intro trim_runes_keeps) (auto simp: space_bytes_def)
  then show ?thesis by (simp add: TrimSpace_def)
qed

lemma TrimRightByte_id: "s \<noteq> [] \<Longrightarrow> last s \<noteq> c \<Longrightarrow> TrimRightByte s c = s"
  by (cases s rule: rev_cases) (simp_all add: TrimRightByte_def)

section \<open>Transition systems with an invariant\<close>

text \<open>
  Every component with concurrent steps is a labelled step relation. The interface asks for
  an invariant that holds at the start and is kept by each step; its client facts are
  that the invariant holds in every reachable state and along every run.
\<close>

inductive run :: "('s \<Rightarrow> 'l \<Rightarrow> 's \<Rightarrow> bool) \<Rightarrow> 's \<Rightarrow> 'l list \<Rightarrow> 's \<Rightarrow> bool"
  for step :: "'s \<Rightarrow> 'l \<Rightarrow> 's \<Rightarrow> bool" where
  run_Nil: "run step s [] s"
| run_snoc: "run step s ls t \<Longrightarrow> step t l u \<Longrightarrow> run step s (ls @ [l]) u"

inductive_simps run_Nil_iff [simp]: "run step s [] t"

lemma run_Cons: "step s l t \<Longrightarrow> run step t ls u \<Longrightarrow> run step s (l # ls) u"
proof (rotate_tac, induction rule: run.induct)
  case (run_Nil t)
  then show ?case using run.run_snoc [OF run.run_Nil] by fastforce
next
  case (run_snoc t ls u l' v)
  then show ?case using run.run_snoc by fastforce
qed

lemma run_one: "step s l t \<Longrightarrow> run step s [l] t"
  by (erule run_Cons) (rule run.run_Nil)

lemma run_append: "run step s ls t \<Longrightarrow> run step t ks u \<Longrightarrow> run step s (ls @ ks) u"
  by (rotate_tac, induction rule: run.induct) (auto simp flip: append_assoc intro: run.run_snoc)

locale invariant_system =
  fixes init :: "'s \<Rightarrow> bool" and step :: "'s \<Rightarrow> 'l \<Rightarrow> 's \<Rightarrow> bool" and inv :: "'s \<Rightarrow> bool"
  assumes inv_init: "init s \<Longrightarrow> inv s"
    and inv_step: "inv s \<Longrightarrow> step s l t \<Longrightarrow> inv t"
begin

lemma run_keeps: "run step s ls t \<Longrightarrow> inv s \<Longrightarrow> inv t"
  by (induction rule: run.induct) (auto intro: inv_step)

lemma reachable_inv: "init s \<Longrightarrow> run step s ls t \<Longrightarrow> inv t"
  by (blast intro: inv_init run_keeps)

end

end
