(* ===== verification/Wire.thy ===== *)
theory Wire
  imports Prelude
begin

text \<open>
  The wire protocol (\<open>daemon/internal/wire/wire.go\<close>): states and events, the message
  records, the constructors of server messages, and the sum of all messages.
  A struct that embeds \<open>Envelope\<close> is an extension of the record \<open>Envelope\<close>.
\<close>

section \<open>States and events\<close>

text \<open>\<open>State\<close> is a string type; the zero value is the empty string.\<close>

type_synonym State = string

definition StateUnknown :: State where "StateUnknown = ''unknown''"
definition StateWorking :: State where "StateWorking = ''working''"
definition StateNeedsAttention :: State where "StateNeedsAttention = ''needs_attention''"

definition EventAgentWorking :: string where "EventAgentWorking = ''agent_working''"
definition EventAgentNeedsAttention :: string where
  "EventAgentNeedsAttention = ''agent_needs_attention''"
definition EventAgentHeartbeat :: string where "EventAgentHeartbeat = ''agent_heartbeat''"

lemmas state_defs = StateUnknown_def StateWorking_def StateNeedsAttention_def
lemmas event_defs = EventAgentWorking_def EventAgentNeedsAttention_def EventAgentHeartbeat_def

lemma state_distinct [simp]:
  "StateUnknown \<noteq> StateWorking" "StateWorking \<noteq> StateUnknown"
  "StateUnknown \<noteq> StateNeedsAttention" "StateNeedsAttention \<noteq> StateUnknown"
  "StateWorking \<noteq> StateNeedsAttention" "StateNeedsAttention \<noteq> StateWorking"
  by (simp_all add: state_defs)

lemma event_distinct [simp]:
  "EventAgentWorking \<noteq> EventAgentNeedsAttention" "EventAgentNeedsAttention \<noteq> EventAgentWorking"
  "EventAgentWorking \<noteq> EventAgentHeartbeat" "EventAgentHeartbeat \<noteq> EventAgentWorking"
  "EventAgentHeartbeat \<noteq> EventAgentNeedsAttention" "EventAgentNeedsAttention \<noteq> EventAgentHeartbeat"
  by (simp_all add: event_defs)

definition StateForEvent :: "string \<Rightarrow> State \<times> bool" where
  "StateForEvent event =
     (if event = EventAgentWorking \<or> event = EventAgentHeartbeat then (StateWorking, True)
      else if event = EventAgentNeedsAttention then (StateNeedsAttention, True)
      else (StateUnknown, False))"

abbreviation known_event :: "string \<Rightarrow> bool" where
  "known_event event \<equiv> snd (StateForEvent event)"

abbreviation declared :: "string \<Rightarrow> State" where
  "declared event \<equiv> fst (StateForEvent event)"

lemma StateForEvent_cases:
  obtains (working) "StateForEvent event = (StateWorking, True)"
  | (attention) "StateForEvent event = (StateNeedsAttention, True)"
  | (unknown) "StateForEvent event = (StateUnknown, False)"
  unfolding StateForEvent_def by presburger

section \<open>Values of \<open>any\<close>\<close>

text \<open>
  What \<open>encoding/json\<close> stores in a \<open>map[string]any\<close>. A number keeps its literal: no
  code of the daemon reads a number out of such a map.
\<close>

datatype json =
  JNull
| JBool bool
| JNum string
| JStr string
| JArr "json list"
| JObj "(string \<times> json) list"

section \<open>Messages\<close>

definition Version :: int where "Version = 1"

record Envelope =
  e_V :: int
  e_Type :: string

definition Env :: "string \<Rightarrow> Envelope" where
  "Env typ = \<lparr>e_V = Version, e_Type = typ\<rparr>"

record EmitMessage = Envelope +
  em_Event :: string
  em_SessionID :: string
  em_Seq :: int
  em_TS :: Time
  em_TmuxPane :: string
  em_TmuxSession :: string
  em_TmuxSocket :: string
  em_Meta :: "(string, json) gomap option"

record AckMessage = Envelope +
  ak_Ok :: bool
  ak_Error :: string

record SubscribeMessage = Envelope +
  sb_Mode :: string
  sb_SessionID :: string
  sb_ActivityID :: string
  sb_ActivityPane :: string
  sb_TmuxSocket :: string
  sb_Title :: string

record UnsubscribeMessage = Envelope +
  us_ActivityID :: string

record SnapshotMessage = Envelope +
  sn_SessionID :: string
  sn_State :: State
  sn_TS :: Time

record StateChangeMessage = Envelope +
  sc_SessionID :: string
  sc_From :: State
  sc_To :: State
  sc_Reason :: string
  sc_TS :: Time

record DroppedMessage = Envelope +
  dr_SessionID :: string
  dr_Hint :: string

record HelloMessage = Envelope +
  he_ServerVersion :: string

record ByeMessage = Envelope +
  by_Reason :: string

record ErrorMessage = Envelope +
  er_Message :: string

type_synonym PingMessage = Envelope
type_synonym PongMessage = Envelope
type_synonym FocusRequestMessage = Envelope
type_synonym StatusRequestMessage = Envelope

record SessionStatus =
  st_SessionID :: string
  st_State :: State
  st_TmuxPane :: string
  st_TmuxSession :: string
  st_BoundActivities :: "string list"
  st_LastEventAt :: Time

record StatusResponseMessage = Envelope +
  sr_ServerVersion :: string
  sr_Sessions :: "SessionStatus list"

datatype Message =
  M_Emit EmitMessage
| M_Ack AckMessage
| M_Subscribe SubscribeMessage
| M_Unsubscribe UnsubscribeMessage
| M_Snapshot SnapshotMessage
| M_StateChange StateChangeMessage
| M_Dropped DroppedMessage
| M_Hello HelloMessage
| M_Bye ByeMessage
| M_Error ErrorMessage
| M_Ping PingMessage
| M_Pong PongMessage
| M_FocusRequest FocusRequestMessage
| M_StatusRequest StatusRequestMessage
| M_Status StatusResponseMessage

section \<open>Constructors of server messages\<close>

text \<open>
  The constructors that stamp a message read the clock: \<open>now\<close> is \<open>time.Now()\<close>.
  Each envelope is \<open>Env\<close> of the message's type, written out.
\<close>

definition Ack :: "bool \<Rightarrow> string \<Rightarrow> Message" where
  "Ack ok errMsg = M_Ack \<lparr>e_V = Version, e_Type = ''ack'', ak_Ok = ok, ak_Error = errMsg\<rparr>"

definition Hello :: "string \<Rightarrow> Message" where
  "Hello serverVersion =
     M_Hello \<lparr>e_V = Version, e_Type = ''hello'', he_ServerVersion = serverVersion\<rparr>"

definition ErrorMsg :: "string \<Rightarrow> Message" where
  "ErrorMsg message = M_Error \<lparr>e_V = Version, e_Type = ''error'', er_Message = message\<rparr>"

definition SnapshotMsg :: "string \<Rightarrow> State \<Rightarrow> Time \<Rightarrow> Message" where
  "SnapshotMsg sessionID state now =
     M_Snapshot \<lparr>e_V = Version, e_Type = ''snapshot'', sn_SessionID = sessionID,
       sn_State = state, sn_TS = now\<rparr>"

definition StateChangeMsg :: "string \<Rightarrow> State \<Rightarrow> State \<Rightarrow> string \<Rightarrow> Time \<Rightarrow> Message" where
  "StateChangeMsg sessionID from to reason now =
     M_StateChange \<lparr>e_V = Version, e_Type = ''state_change'', sc_SessionID = sessionID,
       sc_From = from, sc_To = to, sc_Reason = reason, sc_TS = now\<rparr>"

definition DroppedMsg :: "string \<Rightarrow> Message" where
  "DroppedMsg sessionID =
     M_Dropped \<lparr>e_V = Version, e_Type = ''dropped'', dr_SessionID = sessionID,
       dr_Hint = ''resync''\<rparr>"

definition PingMsg :: Message where "PingMsg = M_Ping (Env ''ping'')"
definition PongMsg :: Message where "PongMsg = M_Pong (Env ''pong'')"
definition FocusRequest :: Message where "FocusRequest = M_FocusRequest (Env ''focus_request'')"

definition ByeMsg :: "string \<Rightarrow> Message" where
  "ByeMsg reason = M_Bye \<lparr>e_V = Version, e_Type = ''bye'', by_Reason = reason\<rparr>"

definition StatusRequest :: Message where
  "StatusRequest = M_StatusRequest (Env ''status_request'')"

section \<open>The type tag of a message\<close>

text \<open>
  The envelope a message carries, and the tag \<open>Decode\<close> selects its Go type by.
  A message is well-formed when its envelope has the current version and that tag.
\<close>

definition envelope :: "Message \<Rightarrow> Envelope" where
  "envelope msg = (case msg of
     M_Emit m \<Rightarrow> Envelope.truncate m
   | M_Ack m \<Rightarrow> Envelope.truncate m
   | M_Subscribe m \<Rightarrow> Envelope.truncate m
   | M_Unsubscribe m \<Rightarrow> Envelope.truncate m
   | M_Snapshot m \<Rightarrow> Envelope.truncate m
   | M_StateChange m \<Rightarrow> Envelope.truncate m
   | M_Dropped m \<Rightarrow> Envelope.truncate m
   | M_Hello m \<Rightarrow> Envelope.truncate m
   | M_Bye m \<Rightarrow> Envelope.truncate m
   | M_Error m \<Rightarrow> Envelope.truncate m
   | M_Ping m \<Rightarrow> m
   | M_Pong m \<Rightarrow> m
   | M_FocusRequest m \<Rightarrow> m
   | M_StatusRequest m \<Rightarrow> m
   | M_Status m \<Rightarrow> Envelope.truncate m)"

definition type_tag :: "Message \<Rightarrow> string" where
  "type_tag msg = (case msg of
     M_Emit m \<Rightarrow> ''emit'' | M_Ack m \<Rightarrow> ''ack''
   | M_Subscribe m \<Rightarrow> ''subscribe'' | M_Unsubscribe m \<Rightarrow> ''unsubscribe''
   | M_Snapshot m \<Rightarrow> ''snapshot'' | M_StateChange m \<Rightarrow> ''state_change''
   | M_Dropped m \<Rightarrow> ''dropped'' | M_Hello m \<Rightarrow> ''hello''
   | M_Bye m \<Rightarrow> ''bye'' | M_Error m \<Rightarrow> ''error''
   | M_Ping m \<Rightarrow> ''ping'' | M_Pong m \<Rightarrow> ''pong''
   | M_FocusRequest m \<Rightarrow> ''focus_request'' | M_StatusRequest m \<Rightarrow> ''status_request''
   | M_Status m \<Rightarrow> ''status'')"

definition well_tagged :: "Message \<Rightarrow> bool" where
  "well_tagged msg \<longleftrightarrow> envelope msg = Env (type_tag msg)"

lemmas constructor_defs =
  Ack_def Hello_def ErrorMsg_def SnapshotMsg_def StateChangeMsg_def DroppedMsg_def
  PingMsg_def PongMsg_def FocusRequest_def ByeMsg_def StatusRequest_def

lemma constructors_well_tagged [simp]:
  "well_tagged (Ack ok err)" "well_tagged (Hello v)" "well_tagged (ErrorMsg e)"
  "well_tagged (SnapshotMsg sid st now)" "well_tagged (StateChangeMsg sid a b r now)"
  "well_tagged (DroppedMsg sid)" "well_tagged PingMsg" "well_tagged PongMsg"
  "well_tagged FocusRequest" "well_tagged (ByeMsg r)" "well_tagged StatusRequest"
  by (simp_all add: well_tagged_def constructor_defs envelope_def type_tag_def Env_def
      Envelope.defs)

lemma constructors_inject [simp]:
  "Ack ok err = Ack ok' err' \<longleftrightarrow> ok = ok' \<and> err = err'"
  "SnapshotMsg sid st now = SnapshotMsg sid' st' now' \<longleftrightarrow> sid = sid' \<and> st = st' \<and> now = now'"
  "DroppedMsg sid = DroppedMsg sid' \<longleftrightarrow> sid = sid'"
  by (auto simp: constructor_defs)

lemma constructors_distinct [simp]:
  "Ack ok err \<noteq> SnapshotMsg sid st now" "SnapshotMsg sid st now \<noteq> Ack ok err"
  "Ack ok err \<noteq> DroppedMsg sid" "DroppedMsg sid \<noteq> Ack ok err"
  "Ack ok err \<noteq> PongMsg" "PongMsg \<noteq> Ack ok err"
  "Ack ok err \<noteq> StateChangeMsg sid a b r now" "StateChangeMsg sid a b r now \<noteq> Ack ok err"
  "SnapshotMsg sid st now \<noteq> StateChangeMsg sid a b r now'"
  "StateChangeMsg sid a b r now' \<noteq> SnapshotMsg sid st now"
  "DroppedMsg sid \<noteq> SnapshotMsg sid' st now" "SnapshotMsg sid' st now \<noteq> DroppedMsg sid"
  "DroppedMsg sid \<noteq> StateChangeMsg sid' a b r now" "StateChangeMsg sid' a b r now \<noteq> DroppedMsg sid"
  by (simp_all add: constructor_defs)

end
