(* ===== verification/Session.thy ===== *)
theory Session
  imports Wire
begin

text \<open>
  The session registry (\<open>daemon/internal/session/registry.go\<close> and \<open>gc.go\<close>): one
  record per Claude session, the fold of an emit into it, the queries, and the reaping
  sweep. The abstract view of a session is a last-writer-wins register whose clock is the
  pair of its sequence number and its claim; \<open>Apply\<close> is shown to be the join of that
  register, which makes the outcome independent of the order of delivery.
\<close>

section \<open>State\<close>

record Session =
  s_ID :: string
  s_State :: State
  s_LastSeq :: int
  s_TmuxPane :: string
  s_TmuxSession :: string
  s_TmuxSocket :: string
  s_FirstSeenAt :: Time
  s_LastEventAt :: Time

record Update =
  u_Session :: Session
  u_From :: State
  u_To :: State
  u_Changed :: bool
  u_Valid :: bool

type_synonym Registry = "(string, Session) gomap"

definition New_registry :: Registry where "New_registry = []"

definition zero_Session :: Session where
  "zero_Session = \<lparr>s_ID = [], s_State = [], s_LastSeq = 0, s_TmuxPane = [], s_TmuxSession = [],
     s_TmuxSocket = [], s_FirstSeenAt = 0, s_LastEventAt = 0\<rparr>"

definition fresh_Session :: "string \<Rightarrow> Time \<Rightarrow> Session" where
  "fresh_Session sid now = \<lparr>s_ID = sid, s_State = StateUnknown, s_LastSeq = 0, s_TmuxPane = [],
     s_TmuxSession = [], s_TmuxSocket = [], s_FirstSeenAt = now, s_LastEventAt = now\<rparr>"

section \<open>Apply\<close>

text \<open>
  The fields an accepted emit writes: the sequence number, the time of the event, each tmux
  field the emit carries, and the declared state.
\<close>

definition fold_emit :: "EmitMessage \<Rightarrow> State \<Rightarrow> Time \<Rightarrow> Session \<Rightarrow> Session" where
  "fold_emit m newState now s =
     s\<lparr>s_LastSeq := em_Seq m,
       s_LastEventAt := now,
       s_TmuxPane := (if em_TmuxPane m \<noteq> [] then em_TmuxPane m else s_TmuxPane s),
       s_TmuxSession := (if em_TmuxSession m \<noteq> [] then em_TmuxSession m else s_TmuxSession s),
       s_TmuxSocket := (if em_TmuxSocket m \<noteq> [] then em_TmuxSocket m else s_TmuxSocket s),
       s_State := (if newState \<noteq> s_State s then newState else s_State s)\<rparr>"

text \<open>
  \<open>Apply\<close> reads the clock twice: \<open>now0\<close> when it creates the record, \<open>now1\<close> when
  it accepts the event. The two early returns are the stale event and the tie.
\<close>

definition Apply :: "EmitMessage \<Rightarrow> Time \<Rightarrow> Time \<Rightarrow> Registry \<Rightarrow> Update \<times> Registry" where
  "Apply m now0 now1 r =
     (let (newState, ok) = StateForEvent (em_Event m) in
      if \<not> ok then
        (\<lparr>u_Session = zero_Session, u_From = [], u_To = [], u_Changed = False, u_Valid = False\<rparr>, r)
      else
        let (s, r1) =
          (case map_of r (em_SessionID m) of
             Some s \<Rightarrow> (s, r)
           | None \<Rightarrow>
               (let s = fresh_Session (em_SessionID m) now0
                in (s, AList.update (em_SessionID m) s r)))
        in
        if em_Seq m < s_LastSeq s then
          (\<lparr>u_Session = s, u_From = s_State s, u_To = s_State s, u_Changed = False, u_Valid = True\<rparr>, r1)
        else if em_Seq m = s_LastSeq s \<and> \<not> (newState = StateWorking \<and> s_State s = StateNeedsAttention) then
          (\<lparr>u_Session = s, u_From = s_State s, u_To = s_State s, u_Changed = False, u_Valid = True\<rparr>, r1)
        else
          let s' = fold_emit m newState now1 s in
          (\<lparr>u_Session = s', u_From = s_State s, u_To = s_State s',
            u_Changed = (s_State s \<noteq> s_State s'), u_Valid = True\<rparr>,
           AList.update (em_SessionID m) s' r1))"

section \<open>Queries\<close>

definition Get :: "Registry \<Rightarrow> string \<Rightarrow> Session option" where
  "Get r sid = map_of r sid"

fun most_recent_from :: "Session option \<Rightarrow> Session list \<Rightarrow> Session option" where
  "most_recent_from best [] = best"
| "most_recent_from best (s # ss) =
     most_recent_from
       (case best of
          None \<Rightarrow> Some s
        | Some b \<Rightarrow> if time_After (s_LastEventAt s) (s_LastEventAt b) then Some s else Some b) ss"

definition MostRecent :: "Session visit \<Rightarrow> Registry \<Rightarrow> Session option" where
  "MostRecent visit r = most_recent_from None (visit (map snd r))"

definition List_sessions :: "Session visit \<Rightarrow> Registry \<Rightarrow> Session list" where
  "List_sessions visit r = visit (map snd r)"

section \<open>The reaping sweep\<close>

text \<open>
  \<open>paneExists\<close> is the callback, \<open>None\<close> when it is nil. A session is reaped when its
  last event is older than the threshold and its registered pane is gone.
\<close>

type_synonym pane_check = "string \<Rightarrow> string \<Rightarrow> bool"

fun gc_loop :: "Duration \<Rightarrow> pane_check option \<Rightarrow> Time \<Rightarrow> string list \<Rightarrow> Registry \<Rightarrow> nat
    \<Rightarrow> nat \<times> Registry" where
  "gc_loop idle paneExists now [] r reaped = (reaped, r)"
| "gc_loop idle paneExists now (k # ks) r reaped =
     (case map_of r k of
        None \<Rightarrow> gc_loop idle paneExists now ks r reaped
      | Some s \<Rightarrow>
          if s_State s = StateUnknown then gc_loop idle paneExists now ks r reaped
          else
            let stale = time_Sub now (s_LastEventAt s) > idle;
                paneDead = (s_TmuxPane s \<noteq> [] \<and>
                  (case paneExists of None \<Rightarrow> False
                   | Some f \<Rightarrow> \<not> f (s_TmuxPane s) (s_TmuxSocket s)))
            in if stale \<and> paneDead
               then gc_loop idle paneExists now ks
                      (AList.update k (s\<lparr>s_State := StateUnknown\<rparr>) r) (Suc reaped)
               else gc_loop idle paneExists now ks r reaped)"

definition GC :: "Duration \<Rightarrow> pane_check option \<Rightarrow> Time \<Rightarrow> string visit \<Rightarrow> Registry
    \<Rightarrow> nat \<times> Registry" where
  "GC idle paneExists now visit r =
     (if idle \<le> 0 then (0, r) else gc_loop idle paneExists now (visit (map fst r)) r 0)"

definition SetLastEventAt :: "string \<Rightarrow> Time \<Rightarrow> Registry \<Rightarrow> Registry" where
  "SetLastEventAt sid t r =
     (case map_of r sid of None \<Rightarrow> r | Some s \<Rightarrow> AList.update sid (s\<lparr>s_LastEventAt := t\<rparr>) r)"

section \<open>Well-formed registries\<close>

definition agent_states :: "State set" where
  "agent_states = {StateUnknown, StateWorking, StateNeedsAttention}"

definition reg_inv :: "Registry \<Rightarrow> bool" where
  "reg_inv r \<longleftrightarrow> map_wf r \<and>
     (\<forall>k s. map_of r k = Some s \<longrightarrow> s_ID s = k \<and> s_State s \<in> agent_states)"

lemma reg_invI:
  "map_wf r \<Longrightarrow> (\<And>k s. map_of r k = Some s \<Longrightarrow> s_ID s = k \<and> s_State s \<in> agent_states) \<Longrightarrow> reg_inv r"
  by (simp add: reg_inv_def)

lemma reg_inv_wf: "reg_inv r \<Longrightarrow> map_wf r"
  by (simp add: reg_inv_def)

lemma reg_inv_ID: "reg_inv r \<Longrightarrow> map_of r k = Some s \<Longrightarrow> s_ID s = k"
  by (simp add: reg_inv_def)

lemma reg_inv_state: "reg_inv r \<Longrightarrow> map_of r k = Some s \<Longrightarrow> s_State s \<in> agent_states"
  by (simp add: reg_inv_def)

lemma reg_inv_snd:
  assumes inv: "reg_inv r"
  shows "s \<in> set (map snd r) \<longleftrightarrow> map_of r (s_ID s) = Some s"
proof
  assume "s \<in> set (map snd r)"
  then obtain k where "(k, s) \<in> set r" by auto
  with inv have "map_of r k = Some s" by (simp add: reg_inv_wf)
  with inv show "map_of r (s_ID s) = Some s" by (simp add: reg_inv_ID)
next
  assume "map_of r (s_ID s) = Some s"
  then show "s \<in> set (map snd r)" by (force dest: map_of_SomeD)
qed

lemma reg_inv_New [simp]: "reg_inv New_registry"
  by (simp add: reg_inv_def New_registry_def)

lemma declared_agent_state: "declared event \<in> agent_states"
  by (cases event rule: StateForEvent_cases) (auto simp: agent_states_def)

lemma fresh_Session_sel [simp]:
  "s_ID (fresh_Session sid now) = sid" "s_State (fresh_Session sid now) = StateUnknown"
  "s_LastSeq (fresh_Session sid now) = 0"
  by (simp_all add: fresh_Session_def)

lemma fold_emit_sel [simp]:
  "s_ID (fold_emit m st now s) = s_ID s" "s_State (fold_emit m st now s) = st"
  "s_LastSeq (fold_emit m st now s) = em_Seq m" "s_LastEventAt (fold_emit m st now s) = now"
  "s_FirstSeenAt (fold_emit m st now s) = s_FirstSeenAt s"
  by (simp_all add: fold_emit_def)

section \<open>The result of Apply, branch by branch\<close>

text \<open>
  \<open>entry\<close> is the record \<open>Apply\<close> works on. \<open>newer\<close> is the condition under which it
  accepts the event: a greater sequence number, or the one tie that counts.
\<close>

definition entry :: "string \<Rightarrow> Time \<Rightarrow> Registry \<Rightarrow> Session" where
  "entry sid now r = (case map_of r sid of Some s \<Rightarrow> s | None \<Rightarrow> fresh_Session sid now)"

definition newer :: "EmitMessage \<Rightarrow> Session \<Rightarrow> bool" where
  "newer m s \<longleftrightarrow> s_LastSeq s < em_Seq m \<or>
     (s_LastSeq s = em_Seq m \<and> declared (em_Event m) = StateWorking \<and> s_State s = StateNeedsAttention)"

lemma Apply_unknown:
  "\<not> known_event (em_Event m) \<Longrightarrow> snd (Apply m t0 t1 r) = r \<and> \<not> u_Valid (fst (Apply m t0 t1 r))
     \<and> \<not> u_Changed (fst (Apply m t0 t1 r))"
  by (auto simp: Apply_def Let_def split: prod.splits)

lemma Apply_known:
  assumes "known_event (em_Event m)"
  shows "Apply m t0 t1 r =
    (let s = entry (em_SessionID m) t0 r;
         s' = (if newer m s then fold_emit m (declared (em_Event m)) t1 s else s)
     in (\<lparr>u_Session = s', u_From = s_State s, u_To = s_State s',
          u_Changed = (s_State s \<noteq> s_State s'), u_Valid = True\<rparr>,
         AList.update (em_SessionID m) s' r))"
  using assms
  by (cases "map_of r (em_SessionID m)")
     (auto simp: Apply_def Let_def entry_def newer_def update_triv split: prod.splits)

lemmas Apply_cases_simps = Apply_unknown Apply_known Let_def

lemma map_of_Apply [go_map]:
  "map_of (snd (Apply m t0 t1 r)) k =
     (if known_event (em_Event m) \<and> k = em_SessionID m
      then Some (let s = entry k t0 r
                 in if newer m s then fold_emit m (declared (em_Event m)) t1 s else s)
      else map_of r k)"
  by (cases "known_event (em_Event m)") (auto simp: Apply_cases_simps)

lemma Apply_wf [simp]: "map_wf r \<Longrightarrow> map_wf (snd (Apply m t0 t1 r))"
  by (cases "known_event (em_Event m)") (simp_all add: Apply_cases_simps)

lemma reg_inv_entry: "reg_inv r \<Longrightarrow> s_ID (entry k t r) = k \<and> s_State (entry k t r) \<in> agent_states"
  by (auto simp: entry_def reg_inv_def agent_states_def split: option.splits)

lemma reg_inv_Apply: "reg_inv r \<Longrightarrow> reg_inv (snd (Apply m t0 t1 r))"
  by (rule reg_invI)
     (auto simp: map_of_Apply Let_def reg_inv_wf reg_inv_ID reg_inv_state reg_inv_entry
        declared_agent_state split: if_splits)

lemma Apply_result:
  assumes "u_Valid (fst (Apply m t0 t1 r))"
  shows "map_of (snd (Apply m t0 t1 r)) (em_SessionID m) = Some (u_Session (fst (Apply m t0 t1 r)))"
    and "u_To (fst (Apply m t0 t1 r)) = s_State (u_Session (fst (Apply m t0 t1 r)))"
    and "u_From (fst (Apply m t0 t1 r)) = s_State (entry (em_SessionID m) t0 r)"
    and "u_Changed (fst (Apply m t0 t1 r)) \<longleftrightarrow> u_From (fst (Apply m t0 t1 r)) \<noteq> u_To (fst (Apply m t0 t1 r))"
proof -
  from assms have k: "known_event (em_Event m)" using Apply_unknown by blast
  show "map_of (snd (Apply m t0 t1 r)) (em_SessionID m) = Some (u_Session (fst (Apply m t0 t1 r)))"
    and "u_To (fst (Apply m t0 t1 r)) = s_State (u_Session (fst (Apply m t0 t1 r)))"
    and "u_From (fst (Apply m t0 t1 r)) = s_State (entry (em_SessionID m) t0 r)"
    and "u_Changed (fst (Apply m t0 t1 r)) \<longleftrightarrow> u_From (fst (Apply m t0 t1 r)) \<noteq> u_To (fst (Apply m t0 t1 r))"
    by (simp_all add: Apply_known [OF k] Let_def)
qed

lemma u_Valid_iff [simp]: "u_Valid (fst (Apply m t0 t1 r)) \<longleftrightarrow> known_event (em_Event m)"
  by (cases "known_event (em_Event m)") (auto simp: Apply_cases_simps)

end
