(* ===== verification/Convergence.thy ===== *)
theory Convergence
  imports Session
begin

text \<open>
  What the registry promises. A session is abstracted to a last-writer-wins register: its
  clock is the sequence number paired with the claim the state makes, and a delivery joins
  the clock of its session with the stamp of the emit. The interface \<open>lww_store\<close> states
  that law; its client lemmas say that the outcome of any sequence of deliveries is
  a maximum, so order and duplicates do not matter. The second half specifies
  \<open>MostRecent\<close> and \<open>GC\<close> independently of the order in which the map is visited.
\<close>

section \<open>Claims, ordered by precedence on a tie\<close>

datatype claim = HeldAttention | DeclaredWorking | Undeclared

primrec claim_rank :: "claim \<Rightarrow> nat" where
  "claim_rank HeldAttention = 0"
| "claim_rank DeclaredWorking = 1"
| "claim_rank Undeclared = 2"

lemma claim_rank_inject [simp]: "claim_rank a = claim_rank b \<longleftrightarrow> a = b"
  by (cases a; cases b) simp_all

instantiation claim :: linorder
begin

definition less_eq_claim :: "claim \<Rightarrow> claim \<Rightarrow> bool" where
  "less_eq_claim a b \<longleftrightarrow> claim_rank a \<le> claim_rank b"

definition less_claim :: "claim \<Rightarrow> claim \<Rightarrow> bool" where
  "less_claim a b \<longleftrightarrow> claim_rank a < claim_rank b"

instance
  by standard (auto simp: less_eq_claim_def less_claim_def simp flip: claim_rank_inject)

end

definition claim_of :: "State \<Rightarrow> claim" where
  "claim_of st = (if st = StateNeedsAttention then HeldAttention
     else if st = StateWorking then DeclaredWorking else Undeclared)"

lemma claim_of_simps [simp]:
  "claim_of StateNeedsAttention = HeldAttention" "claim_of StateWorking = DeclaredWorking"
  "claim_of StateUnknown = Undeclared"
  by (simp_all add: claim_of_def)

lemma claim_of_inject:
  "a \<in> agent_states \<Longrightarrow> b \<in> agent_states \<Longrightarrow> claim_of a = claim_of b \<longleftrightarrow> a = b"
  by (auto simp: agent_states_def)

lemma claim_less_iff [simp]:
  "HeldAttention < DeclaredWorking" "HeldAttention < Undeclared" "DeclaredWorking < Undeclared"
  "\<not> DeclaredWorking < HeldAttention" "\<not> Undeclared < DeclaredWorking" "\<not> Undeclared < HeldAttention"
  by (simp_all add: less_claim_def)

section \<open>Last-writer-wins stores\<close>

locale lww_store =
  fixes inv :: "'s \<Rightarrow> bool"
    and clock :: "'s \<Rightarrow> 'k \<Rightarrow> 'c::linorder"
    and deliver :: "'e \<Rightarrow> 's \<Rightarrow> 's"
    and accepts :: "'e \<Rightarrow> bool"
    and key :: "'e \<Rightarrow> 'k"
    and stamp :: "'e \<Rightarrow> 'c"
  assumes inv_deliver: "inv s \<Longrightarrow> inv (deliver e s)"
    and clock_deliver: "inv s \<Longrightarrow>
      clock (deliver e s) k = (if accepts e \<and> key e = k then max (clock s k) (stamp e) else clock s k)"
begin

lemma inv_fold: "inv s \<Longrightarrow> inv (fold deliver es s)"
  by (induction es arbitrary: s) (auto intro: inv_deliver)

lemma clock_fold:
  "inv s \<Longrightarrow> clock (fold deliver es s) k =
     Max (insert (clock s k) (stamp ` {e \<in> set es. accepts e \<and> key e = k}))"
proof (induction es arbitrary: s)
  case Nil
  then show ?case by simp
next
  case (Cons e es)
  let ?S = "stamp ` {x \<in> set es. accepts x \<and> key x = k}"
  have IH: "clock (fold deliver (e # es) s) k = Max (insert (clock (deliver e s) k) ?S)"
    using Cons by (simp add: inv_deliver)
  show ?case
  proof (cases "accepts e \<and> key e = k")
    case True
    then have S: "stamp ` {x \<in> set (e # es). accepts x \<and> key x = k} = insert (stamp e) ?S" by auto
    have "Max (insert (max a b) ?S) = Max (insert a (insert b ?S))" for a b
      by (cases "?S = {}") (simp_all add: max.assoc del: image_is_empty)
    with IH True Cons.prems show ?thesis unfolding S by (simp add: clock_deliver)
  next
    case False
    then have "{x \<in> set (e # es). accepts x \<and> key x = k} = {x \<in> set es. accepts x \<and> key x = k}"
      by auto
    with IH False Cons.prems show ?thesis by (auto simp: clock_deliver)
  qed
qed

lemma clock_grows: "inv s \<Longrightarrow> clock s k \<le> clock (fold deliver es s) k"
  by (simp add: clock_fold)

lemma convergence:
  assumes "inv s"
    and "(\<lambda>e. (key e, stamp e)) ` {e \<in> set es. accepts e} =
         (\<lambda>e. (key e, stamp e)) ` {e \<in> set es'. accepts e}"
  shows "clock (fold deliver es s) k = clock (fold deliver es' s) k"
proof -
  have "stamp ` {e \<in> set xs. accepts e \<and> key e = k} =
      snd ` {p \<in> (\<lambda>e. (key e, stamp e)) ` {e \<in> set xs. accepts e}. fst p = k}" for xs
    by (force simp: image_iff)
  with assms show ?thesis by (simp add: clock_fold)
qed

end

section \<open>The registry is such a store\<close>

record delivery =
  d_emit :: EmitMessage
  d_now0 :: Time
  d_now1 :: Time

definition deliver :: "delivery \<Rightarrow> Registry \<Rightarrow> Registry" where
  "deliver d r = snd (Apply (d_emit d) (d_now0 d) (d_now1 d) r)"

abbreviation deliver_all :: "delivery list \<Rightarrow> Registry \<Rightarrow> Registry" where
  "deliver_all ds r \<equiv> fold deliver ds r"

definition abs_session :: "Session \<Rightarrow> int \<times> claim" where
  "abs_session s = (s_LastSeq s, claim_of (s_State s))"

definition abs_registry :: "Registry \<Rightarrow> string \<Rightarrow> int \<times> claim" where
  "abs_registry r sid = (case Get r sid of None \<Rightarrow> (0, Undeclared) | Some s \<Rightarrow> abs_session s)"

definition emit_stamp :: "EmitMessage \<Rightarrow> int \<times> claim" where
  "emit_stamp m = (em_Seq m, claim_of (declared (em_Event m)))"

lemma newer_iff_less:
  assumes "s_State s \<in> agent_states" and "known_event (em_Event m)"
  shows "newer m s \<longleftrightarrow> abs_session s < emit_stamp m"
  using assms
  by (cases "em_Event m" rule: StateForEvent_cases)
     (auto simp: newer_def abs_session_def emit_stamp_def agent_states_def)

lemma abs_registry_entry: "abs_registry r sid = abs_session (entry sid t r)"
  by (auto simp: abs_registry_def Get_def entry_def abs_session_def split: option.splits)

lemma abs_fold_emit: "abs_session (fold_emit m (declared (em_Event m)) t s) = emit_stamp m"
  by (simp add: abs_session_def emit_stamp_def)

lemma abs_Apply:
  assumes inv: "reg_inv r"
  shows "abs_registry (snd (Apply m t0 t1 r)) sid =
    (if known_event (em_Event m) \<and> em_SessionID m = sid
     then max (abs_registry r sid) (emit_stamp m) else abs_registry r sid)"
proof (cases "known_event (em_Event m) \<and> em_SessionID m = sid")
  case True
  let ?s = "entry sid t0 r"
  have new: "newer m ?s \<longleftrightarrow> abs_registry r sid < emit_stamp m"
    using True newer_iff_less reg_inv_entry [OF inv] by (simp add: abs_registry_entry [of r sid t0])
  have "abs_registry (snd (Apply m t0 t1 r)) sid =
      abs_session (if newer m ?s then fold_emit m (declared (em_Event m)) t1 ?s else ?s)"
    using True by (simp add: abs_registry_def Get_def map_of_Apply Let_def)
  also have "\<dots> = max (abs_registry r sid) (emit_stamp m)"
    using new by (auto simp: abs_fold_emit abs_registry_entry [of r sid t0] max_def)
  finally show ?thesis using True by simp
next
  case False
  then show ?thesis by (auto simp: abs_registry_def Get_def map_of_Apply)
qed

interpretation registry: lww_store reg_inv abs_registry deliver
  "\<lambda>d. known_event (em_Event (d_emit d))" "\<lambda>d. em_SessionID (d_emit d)" "\<lambda>d. emit_stamp (d_emit d)"
  by unfold_locales (auto simp: deliver_def reg_inv_Apply abs_Apply)

lemma keys_deliver_all:
  "fst ` set (deliver_all ds r) =
     fst ` set r \<union> (\<lambda>d. em_SessionID (d_emit d)) ` {d \<in> set ds. known_event (em_Event (d_emit d))}"
proof (induction ds arbitrary: r)
  case Nil
  then show ?case by simp
next
  case (Cons d ds)
  have "fst ` set (deliver d r) = fst ` set r \<union>
      (if known_event (em_Event (d_emit d)) then {em_SessionID (d_emit d)} else {})"
    by (cases "known_event (em_Event (d_emit d))")
       (auto simp: deliver_def Apply_cases_simps keys_update)
  with Cons show ?case by auto
qed

lemma Get_None_iff: "Get r sid = None \<longleftrightarrow> sid \<notin> fst ` set r"
  by (simp add: Get_def map_of_eq_None_iff)

lemma abs_registry_state:
  assumes "reg_inv r" "reg_inv r'" and "abs_registry r sid = abs_registry r' sid"
    and "Get r sid = None \<longleftrightarrow> Get r' sid = None"
  shows "map_option (\<lambda>s. (s_LastSeq s, s_State s)) (Get r sid) =
         map_option (\<lambda>s. (s_LastSeq s, s_State s)) (Get r' sid)"
  using assms
  by (cases "Get r sid"; cases "Get r' sid")
     (auto simp: abs_registry_def abs_session_def Get_def claim_of_inject reg_inv_state)

section \<open>MostRecent\<close>

lemma most_recent_from_Some:
  "\<exists>s. most_recent_from (Some b) ss = Some s \<and> s \<in> insert b (set ss) \<and>
     (\<forall>t \<in> insert b (set ss). s_LastEventAt t \<le> s_LastEventAt s)"
proof (induction ss arbitrary: b)
  case Nil
  then show ?case by simp
next
  case (Cons x ss)
  let ?b = "if time_After (s_LastEventAt x) (s_LastEventAt b) then x else b"
  from Cons.IH [of ?b] obtain s where "most_recent_from (Some ?b) ss = Some s"
    "s \<in> insert ?b (set ss)" "\<forall>t \<in> insert ?b (set ss). s_LastEventAt t \<le> s_LastEventAt s"
    by blast
  moreover have "s_LastEventAt x \<le> s_LastEventAt ?b" "s_LastEventAt b \<le> s_LastEventAt ?b"
    by (auto simp: time_After_def)
  ultimately show ?case by (force split: if_splits)
qed

lemma MostRecent_spec:
  assumes inv: "reg_inv r" and visit: "range_order visit"
  shows "case MostRecent visit r of
      None \<Rightarrow> r = []
    | Some s \<Rightarrow> Get r (s_ID s) = Some s \<and>
        (\<forall>k t. Get r k = Some t \<longrightarrow> s_LastEventAt t \<le> s_LastEventAt s)"
proof (cases "visit (map snd r)")
  case Nil
  with visit have "r = []" by (simp add: range_order_Nil)
  with Nil show ?thesis by (simp add: MostRecent_def)
next
  case (Cons b ss)
  from most_recent_from_Some [of b ss] obtain s where s: "MostRecent visit r = Some s"
    "s \<in> set (b # ss)" "\<forall>t \<in> set (b # ss). s_LastEventAt t \<le> s_LastEventAt s"
    using Cons by (auto simp: MostRecent_def)
  moreover have set: "set (b # ss) = set (map snd r)"
    using range_order_set [OF visit, of "map snd r"] Cons by simp
  ultimately have "s \<in> set (map snd r)" by (simp only: set)
  then have "map_of r (s_ID s) = Some s" by (simp only: reg_inv_snd [OF inv])
  moreover have "s_LastEventAt t \<le> s_LastEventAt s" if "map_of r k = Some t" for k t
    using map_of_SomeD [OF that] s(3) set by force
  ultimately show ?thesis using s(1) by (simp add: Get_def)
qed

section \<open>GC\<close>

definition reapable :: "Duration \<Rightarrow> pane_check option \<Rightarrow> Time \<Rightarrow> Session \<Rightarrow> bool" where
  "reapable idle paneExists now s \<longleftrightarrow>
     s_State s \<noteq> StateUnknown \<and> time_Sub now (s_LastEventAt s) > idle \<and> s_TmuxPane s \<noteq> [] \<and>
     (\<exists>f. paneExists = Some f \<and> \<not> f (s_TmuxPane s) (s_TmuxSocket s))"

definition reap :: "Duration \<Rightarrow> pane_check option \<Rightarrow> Time \<Rightarrow> Session \<Rightarrow> Session" where
  "reap idle paneExists now s =
     (if reapable idle paneExists now s then s\<lparr>s_State := StateUnknown\<rparr> else s)"

lemma gc_loop_spec:
  assumes "distinct ks" and "set ks \<subseteq> fst ` set r"
  shows "map fst (snd (gc_loop idle pe now ks r n)) = map fst r"
    and "map_of (snd (gc_loop idle pe now ks r n)) k =
      (if k \<in> set ks then map_option (reap idle pe now) (map_of r k) else map_of r k)"
    and "fst (gc_loop idle pe now ks r n) =
      n + length (filter (\<lambda>k. reapable idle pe now (the (map_of r k))) ks)"
proof -
  have "map fst (snd (gc_loop idle pe now ks r n)) = map fst r \<and>
      map_of (snd (gc_loop idle pe now ks r n)) k =
      (if k \<in> set ks then map_option (reap idle pe now) (map_of r k) else map_of r k) \<and>
      fst (gc_loop idle pe now ks r n) =
      n + length (filter (\<lambda>k. reapable idle pe now (the (map_of r k))) ks)"
    using assms
  proof (induction ks arbitrary: r n)
    case Nil
    then show ?case by simp
  next
    case (Cons x ks)
    from Cons.prems(2) have "map_of r x \<noteq> None" by (simp add: map_of_eq_None_iff)
    then obtain s where s: "map_of r x = Some s" by blast
    let ?r = "if reapable idle pe now s then AList.update x (s\<lparr>s_State := StateUnknown\<rparr>) r else r"
    let ?n = "if reapable idle pe now s then Suc n else n"
    have unf: "gc_loop idle pe now (x # ks) r n = gc_loop idle pe now ks ?r ?n"
      using s by (auto simp: reapable_def Let_def split: option.splits)
    have keys: "map fst ?r = map fst r"
      using Cons.prems by (auto simp: update_keys)
    then have "set ks \<subseteq> fst ` set ?r" using Cons.prems(2) by (metis list.set_map set_subset_Cons subset_trans)
    from Cons.IH [OF _ this, of ?n] Cons.prems(1)
    have IH: "map fst (snd (gc_loop idle pe now ks ?r ?n)) = map fst ?r \<and>
      map_of (snd (gc_loop idle pe now ks ?r ?n)) k =
      (if k \<in> set ks then map_option (reap idle pe now) (map_of ?r k) else map_of ?r k) \<and>
      fst (gc_loop idle pe now ks ?r ?n) =
      ?n + length (filter (\<lambda>k. reapable idle pe now (the (map_of ?r k))) ks)" by simp
    have other: "filter (\<lambda>k. reapable idle pe now (the (map_of ?r k))) ks =
        filter (\<lambda>k. reapable idle pe now (the (map_of r k))) ks"
      using Cons.prems(1) by (intro filter_cong) auto
    have upd: "map_of ?r k = (if k = x then Some (reap idle pe now s) else map_of r k)"
      using s by (simp add: reap_def)
    have notin: "x \<notin> set ks" using Cons.prems(1) by simp
    show ?case
      unfolding unf using IH keys
      by (intro conjI) (simp_all only: other upd, use s notin in \<open>simp_all\<close>)
  qed
  then show "map fst (snd (gc_loop idle pe now ks r n)) = map fst r"
    and "map_of (snd (gc_loop idle pe now ks r n)) k =
      (if k \<in> set ks then map_option (reap idle pe now) (map_of r k) else map_of r k)"
    and "fst (gc_loop idle pe now ks r n) =
      n + length (filter (\<lambda>k. reapable idle pe now (the (map_of r k))) ks)"
    by blast+
qed

lemma map_of_map_values: "map_of (map (\<lambda>(k, v). (k, f v)) m) k = map_option f (map_of m k)"
  by (induction m) auto

lemma GC_spec:
  assumes inv: "reg_inv r" and visit: "range_order visit" and idle: "0 < idle"
  shows "GC idle pe now visit r =
    (length (filter (reapable idle pe now) (map snd r)), map (\<lambda>(k, s). (k, reap idle pe now s)) r)"
proof -
  let ?ks = "visit (map fst r)"
  have d: "distinct ?ks" "set ?ks \<subseteq> fst ` set r"
    using reg_inv_wf [OF inv] visit by (simp_all add: range_order_simps)
  note spec = gc_loop_spec [OF d, of idle pe now 0]
  have "length (filter P ?ks) = length (filter P (map fst r))" for P
    using visit by (metis mset_filter range_order_def size_mset)
  moreover have "length (filter (\<lambda>k. reapable idle pe now (the (map_of r k))) (map fst r)) =
      length (filter (reapable idle pe now) (map snd r))"
    using reg_inv_wf [OF inv]
    by (simp add: filter_map o_def) (metis (mono_tags, lifting) filter_cong map_of_is_SomeI option.sel prod.collapse)
  ultimately have cnt: "fst (gc_loop idle pe now ?ks r 0) = length (filter (reapable idle pe now) (map snd r))"
    by (simp add: spec(3))
  have "snd (gc_loop idle pe now ?ks r 0) = map (\<lambda>(k, s). (k, reap idle pe now s)) r"
  proof (rule map_of_eq_map_ext)
    show "map fst (snd (gc_loop idle pe now ?ks r 0)) = map fst (map (\<lambda>(k, s). (k, reap idle pe now s)) r)"
      by (simp add: spec(1) o_def case_prod_beta)
    show "map_wf (snd (gc_loop idle pe now ?ks r 0))"
      using inv by (simp add: spec(1) reg_inv_wf)
    fix k
    assume "k \<in> fst ` set (snd (gc_loop idle pe now ?ks r 0))"
    then have "k \<in> fst ` set r" by (metis list.set_map spec(1))
    with visit show "map_of (snd (gc_loop idle pe now ?ks r 0)) k =
        map_of (map (\<lambda>(k, s). (k, reap idle pe now s)) r) k"
      by (simp add: spec(2) map_of_map_values range_order_set)
  qed
  with cnt idle show ?thesis by (simp add: GC_def prod_eq_iff)
qed

lemma reap_sel [simp]:
  "s_ID (reap idle pe now s) = s_ID s" "s_LastSeq (reap idle pe now s) = s_LastSeq s"
  "s_TmuxPane (reap idle pe now s) = s_TmuxPane s" "s_TmuxSocket (reap idle pe now s) = s_TmuxSocket s"
  "s_LastEventAt (reap idle pe now s) = s_LastEventAt s"
  by (simp_all add: reap_def)

lemma s_State_reap: "s_State (reap idle pe now s) = (if reapable idle pe now s then StateUnknown else s_State s)"
  by (simp add: reap_def)

lemma map_of_GC:
  assumes "reg_inv r" "range_order visit" "0 < idle"
  shows "map_of (snd (GC idle pe now visit r)) k = map_option (reap idle pe now) (map_of r k)"
  by (simp add: GC_spec [OF assms] map_of_map_values)

lemma GC_disabled: "idle \<le> 0 \<Longrightarrow> GC idle pe now visit r = (0, r)"
  by (simp add: GC_def)

lemma reg_inv_GC:
  assumes "reg_inv r" "range_order visit"
  shows "reg_inv (snd (GC idle pe now visit r))"
proof (cases "idle \<le> 0")
  case True
  with assms show ?thesis by (simp add: GC_disabled)
next
  case False
  with assms have "map_wf (snd (GC idle pe now visit r))"
    by (simp add: GC_spec reg_inv_wf o_def case_prod_beta)
  with False assms show ?thesis
    by (auto simp: reg_inv_def [of "snd _"] map_of_GC s_State_reap reg_inv_ID reg_inv_state agent_states_def)
       (metis agent_states_def insertE reg_inv_state singletonD)
qed

end
