(* ===== verification/Bus.thy ===== *)
theory Bus
  imports Wire
begin

text \<open>
  The publish/subscribe bus (\<open>daemon/internal/bus/bus.go\<close>). Subscriptions are shared
  objects: the server's table and the bus hold pointers to the same \<open>Sub\<close>, and
  \<open>Rebind\<close> changes it in place, so the bus carries an explicit heap of subscriptions and
  the set of registered pointers. The operations under the bus's mutex are functions on that
  state; the pump goroutine of a subscription is a step relation.
\<close>

section \<open>State\<close>

type_synonym sink = nat
type_synonym subptr = nat

definition subBufferSize :: nat where "subBufferSize = 64"

text \<open>
  Where the pump goroutine stands: at the \<open>select\<close>, holding a message it has received
  (before the compare-and-swap on \<open>overflow\<close>), about to send the dropped notice, about to
  call \<open>onResync\<close>, about to send the message, or returned.
\<close>

datatype pump =
  P_Select
| P_Received Message
| P_Notice Message
| P_Resync Message
| P_Send Message
| P_Exited

record Sub =
  sub_Mode :: string
  sub_BoundSession :: string
  sub_ActivityPane :: string
  sub_ActivityID :: string
  sub_Title :: string
  sub_ch :: "Message list"
  sub_overflow :: bool
  sub_sink :: sink
  sub_done :: bool
  sub_onResync :: bool
  sub_stopOnce :: bool
  sub_pump :: pump

record SubOpts =
  so_Mode :: string
  so_BoundSession :: string
  so_ActivityPane :: string
  so_ActivityID :: string
  so_Title :: string
  so_Sink :: sink
  so_OnResync :: bool

record Bus =
  b_heap :: "Sub list"
  b_subs :: "subptr list"

section \<open>Operations\<close>

definition matches :: "Sub \<Rightarrow> string \<Rightarrow> bool" where
  "matches s sessionID \<longleftrightarrow>
     (if sub_Mode s = ''any'' \<or> sub_BoundSession s = [] then True
      else sub_BoundSession s = sessionID)"

definition New_bus :: Bus where "New_bus = \<lparr>b_heap = [], b_subs = []\<rparr>"

definition new_sub :: "SubOpts \<Rightarrow> Sub" where
  "new_sub opt =
     \<lparr>sub_Mode = so_Mode opt, sub_BoundSession = so_BoundSession opt,
      sub_ActivityPane = so_ActivityPane opt, sub_ActivityID = so_ActivityID opt,
      sub_Title = so_Title opt, sub_ch = [], sub_overflow = False, sub_sink = so_Sink opt,
      sub_done = False, sub_onResync = so_OnResync opt, sub_stopOnce = False,
      sub_pump = P_Select\<rparr>"

definition Subscribe :: "SubOpts \<Rightarrow> Bus \<Rightarrow> subptr \<times> Bus" where
  "Subscribe opt b =
     (let p = length (b_heap b)
      in (p, \<lparr>b_heap = b_heap b @ [new_sub opt], b_subs = b_subs b @ [p]\<rparr>))"

definition modify_sub :: "subptr \<Rightarrow> (Sub \<Rightarrow> Sub) \<Rightarrow> Bus \<Rightarrow> Bus" where
  "modify_sub p f b = b\<lparr>b_heap := (b_heap b)[p := f (b_heap b ! p)]\<rparr>"

definition bind_unbound :: "string \<Rightarrow> Sub \<Rightarrow> Sub" where
  "bind_unbound sessionID s =
     (if sub_BoundSession s = [] then s\<lparr>sub_BoundSession := sessionID\<rparr> else s)"

definition Rebind :: "subptr option \<Rightarrow> string \<Rightarrow> Bus \<Rightarrow> Bus" where
  "Rebind sp sessionID b =
     (case sp of
        None \<Rightarrow> b
      | Some p \<Rightarrow> if p \<notin> set (b_subs b) then b else modify_sub p (bind_unbound sessionID) b)"

definition stop_sub :: "Sub \<Rightarrow> Sub" where
  "stop_sub s = (if sub_stopOnce s then s else s\<lparr>sub_stopOnce := True, sub_done := True\<rparr>)"

definition Unsubscribe :: "subptr option \<Rightarrow> Bus \<Rightarrow> Bus" where
  "Unsubscribe sp b =
     (case sp of
        None \<Rightarrow> b
      | Some p \<Rightarrow> modify_sub p stop_sub (b\<lparr>b_subs := removeAll p (b_subs b)\<rparr>))"

definition UnregisterSink :: "subptr visit \<Rightarrow> sink \<Rightarrow> Bus \<Rightarrow> Bus" where
  "UnregisterSink visit sk b =
     (let doomed = filter (\<lambda>p. sub_sink (b_heap b ! p) = sk) (visit (b_subs b))
      in fold (\<lambda>p. Unsubscribe (Some p)) doomed b)"

text \<open>
  One turn of \<open>Publish\<close>'s loop: skip a subscription that does not match; otherwise the
  non-blocking send, which sets \<open>overflow\<close> when the buffer is full.
\<close>

definition offer :: "string \<Rightarrow> Message \<Rightarrow> Sub \<Rightarrow> Sub" where
  "offer sessionID msg s =
     (if \<not> matches s sessionID then s
      else if length (sub_ch s) < subBufferSize then s\<lparr>sub_ch := sub_ch s @ [msg]\<rparr>
      else s\<lparr>sub_overflow := True\<rparr>)"

definition Publish :: "subptr visit \<Rightarrow> string \<Rightarrow> Message \<Rightarrow> Bus \<Rightarrow> Bus" where
  "Publish visit sessionID msg b =
     fold (\<lambda>p. modify_sub p (offer sessionID msg)) (visit (b_subs b)) b"

section \<open>The pump goroutine\<close>

text \<open>
  What a step of the pump does: it returns because \<open>done\<close> is closed, receives from the
  channel, passes the compare-and-swap with or without clearing the flag, sends to the sink
  (with the outcome of \<open>Send\<close>, which the network decides), or calls back for a resync.
\<close>

datatype pump_act =
  A_Stop
| A_Recv Message
| A_Swap bool
| A_Notice Message
| A_Resync
| A_Sent Message bool

inductive pump_step :: "Sub \<Rightarrow> pump_act \<Rightarrow> Sub \<Rightarrow> bool" where
  stop: "sub_pump s = P_Select \<Longrightarrow> sub_done s \<Longrightarrow> pump_step s A_Stop (s\<lparr>sub_pump := P_Exited\<rparr>)"
| recv: "sub_pump s = P_Select \<Longrightarrow> sub_ch s = m # ms \<Longrightarrow>
    pump_step s (A_Recv m) (s\<lparr>sub_pump := P_Received m, sub_ch := ms\<rparr>)"
| swap_true: "sub_pump s = P_Received m \<Longrightarrow> sub_overflow s \<Longrightarrow>
    pump_step s (A_Swap True) (s\<lparr>sub_pump := P_Notice m, sub_overflow := False\<rparr>)"
| swap_false: "sub_pump s = P_Received m \<Longrightarrow> \<not> sub_overflow s \<Longrightarrow>
    pump_step s (A_Swap False) (s\<lparr>sub_pump := P_Send m\<rparr>)"
| notice: "sub_pump s = P_Notice m \<Longrightarrow>
    pump_step s (A_Notice (DroppedMsg (sub_BoundSession s)))
      (s\<lparr>sub_pump := if sub_onResync s then P_Resync m else P_Send m\<rparr>)"
| resync: "sub_pump s = P_Resync m \<Longrightarrow> pump_step s A_Resync (s\<lparr>sub_pump := P_Send m\<rparr>)"
| send_ok: "sub_pump s = P_Send m \<Longrightarrow> pump_step s (A_Sent m True) (s\<lparr>sub_pump := P_Select\<rparr>)"
| send_err: "sub_pump s = P_Send m \<Longrightarrow> pump_step s (A_Sent m False) (s\<lparr>sub_pump := P_Exited\<rparr>)"

code_pred (modes: i \<Rightarrow> o \<Rightarrow> o \<Rightarrow> bool) pump_step .

inductive_cases pump_stepE: "pump_step s a t"
inductive_simps pump_step_Recv [simp]: "pump_step s (A_Recv m) t"
inductive_simps pump_step_Sent [simp]: "pump_step s (A_Sent m ok) t"

text \<open>
  One subscription under all interleavings: its pump, publishers, a rebinding, and the
  unsubscription.
\<close>

datatype sub_act =
  S_Pump pump_act
| S_Offer string Message
| S_Rebind string
| S_Stop

inductive sub_step :: "Sub \<Rightarrow> sub_act \<Rightarrow> Sub \<Rightarrow> bool" where
  by_pump: "pump_step s a t \<Longrightarrow> sub_step s (S_Pump a) t"
| by_publish: "sub_step s (S_Offer sid msg) (offer sid msg s)"
| by_rebind: "sub_step s (S_Rebind sid) (bind_unbound sid s)"
| by_stop: "sub_step s S_Stop (stop_sub s)"

inductive_cases sub_stepE: "sub_step s a t"

section \<open>Invariant of a subscription\<close>

text \<open>
  The buffer never exceeds its capacity, \<open>done\<close> is closed exactly when the
  \<open>sync.Once\<close> has run (so it is never closed twice), and a raised \<open>overflow\<close> flag always
  has a message left that will make the pump notice it.
\<close>

definition sub_inv :: "Sub \<Rightarrow> bool" where
  "sub_inv s \<longleftrightarrow> length (sub_ch s) \<le> subBufferSize \<and> (sub_done s \<longleftrightarrow> sub_stopOnce s) \<and>
     (sub_overflow s \<longrightarrow> sub_pump s = P_Exited \<or> sub_ch s \<noteq> [] \<or> (\<exists>m. sub_pump s = P_Received m))"

lemma subBufferSize_pos [simp]: "0 < subBufferSize"
  by (simp add: subBufferSize_def)

lemma sub_inv_new [simp]: "sub_inv (new_sub opt)"
  by (simp add: sub_inv_def new_sub_def)

lemma sub_inv_offer: "sub_inv s \<Longrightarrow> sub_inv (offer sid msg s)"
  by (auto simp: sub_inv_def offer_def)

lemma sub_inv_bind: "sub_inv s \<Longrightarrow> sub_inv (bind_unbound sid s)"
  by (auto simp: sub_inv_def bind_unbound_def)

lemma sub_inv_stop: "sub_inv s \<Longrightarrow> sub_inv (stop_sub s)"
  by (auto simp: sub_inv_def stop_sub_def)

lemma sub_inv_pump: "pump_step s a t \<Longrightarrow> sub_inv s \<Longrightarrow> sub_inv t"
  by (induction rule: pump_step.induct) (auto simp: sub_inv_def)

lemma sub_inv_step: "sub_inv s \<Longrightarrow> sub_step s a t \<Longrightarrow> sub_inv t"
  by (auto elim!: sub_stepE intro: sub_inv_offer sub_inv_bind sub_inv_stop sub_inv_pump)

interpretation sub_sys: invariant_system "\<lambda>s. \<exists>opt. s = new_sub opt" sub_step sub_inv
  by unfold_locales (auto intro: sub_inv_step)

subsection \<open>Accounting\<close>

text \<open>
  Along a run: the messages the buffer accepted, those the pump received, and those it
  handed to the sink.
\<close>

fun accepted :: "Sub \<Rightarrow> sub_act \<Rightarrow> Message list" where
  "accepted s (S_Offer sid msg) =
     (if matches s sid \<and> length (sub_ch s) < subBufferSize then [msg] else [])"
| "accepted s _ = []"

fun sent :: "sub_act \<Rightarrow> Message list" where
  "sent (S_Pump (A_Sent m ok)) = [m]"
| "sent _ = []"

definition in_hand :: "Sub \<Rightarrow> Message list" where
  "in_hand s = (case sub_pump s of
     P_Received m \<Rightarrow> [m] | P_Notice m \<Rightarrow> [m] | P_Resync m \<Rightarrow> [m] | P_Send m \<Rightarrow> [m] | _ \<Rightarrow> [])"

lemma sub_step_accounting:
  assumes "sub_step s a t"
  shows "sent a @ in_hand t @ sub_ch t = in_hand s @ sub_ch s @ accepted s a"
  using assms
proof (cases rule: sub_step.cases)
  case (by_pump a')
  from by_pump(2) show ?thesis unfolding by_pump(1)
    by (cases rule: pump_step.cases) (auto simp: in_hand_def)
qed (auto simp: in_hand_def offer_def bind_unbound_def stop_sub_def split: pump.splits)

text \<open>A run of a subscription that records what was accepted and what was sent.\<close>

inductive sub_run :: "Sub \<Rightarrow> Message list \<Rightarrow> Message list \<Rightarrow> Sub \<Rightarrow> bool" where
  sub_run_Nil: "sub_run s [] [] s"
| sub_run_step: "sub_run s acc out t \<Longrightarrow> sub_step t a u \<Longrightarrow>
    sub_run s (acc @ accepted t a) (out @ sent a) u"

lemma sub_run_accounting:
  "sub_run s acc out t \<Longrightarrow> out @ in_hand t @ sub_ch t = in_hand s @ sub_ch s @ acc"
proof (induction rule: sub_run.induct)
  case (sub_run_Nil s)
  then show ?case by simp
next
  case (sub_run_step s acc out t a u)
  from sub_step_accounting [OF sub_run_step.hyps(2)] sub_run_step.IH
  show ?case by (metis append.assoc)
qed

lemma sub_run_inv: "sub_run s acc out t \<Longrightarrow> sub_inv s \<Longrightarrow> sub_inv t"
  by (induction rule: sub_run.induct) (auto intro: sub_inv_step)

subsection \<open>Draining the buffer after a drop\<close>

definition sends :: "pump_act list \<Rightarrow> pump_act list" where
  "sends as = filter (\<lambda>a. case a of A_Notice m \<Rightarrow> True | A_Resync \<Rightarrow> True | A_Sent m ok \<Rightarrow> True | _ \<Rightarrow> False) as"

lemma sends_append [simp]: "sends (as @ bs) = sends as @ sends bs"
  by (simp add: sends_def)

lemma sends_Cons [simp]:
  "sends (A_Recv m # as) = sends as" "sends (A_Swap c # as) = sends as"
  "sends (A_Notice m # as) = A_Notice m # sends as" "sends (A_Resync # as) = A_Resync # sends as"
  "sends (A_Sent m ok # as) = A_Sent m ok # sends as" "sends [] = []"
  by (simp_all add: sends_def)

lemma pump_one:
  assumes "sub_pump s = P_Select" "sub_ch s = m # ms" "\<not> sub_overflow s"
  shows "run pump_step s [A_Recv m, A_Swap False, A_Sent m True] (s\<lparr>sub_ch := ms\<rparr>)"
proof -
  let ?s1 = "s\<lparr>sub_pump := P_Received m, sub_ch := ms\<rparr>" 
  let ?s2 = "?s1\<lparr>sub_pump := P_Send m\<rparr>"
  have "pump_step s (A_Recv m) ?s1" using assms by auto
  moreover have "pump_step ?s1 (A_Swap False) ?s2"
    using assms swap_false [of ?s1 m] by simp
  moreover have "pump_step ?s2 (A_Sent m True) (?s2\<lparr>sub_pump := P_Select\<rparr>)" by simp
  ultimately have "run pump_step s [A_Recv m, A_Swap False, A_Sent m True] (?s2\<lparr>sub_pump := P_Select\<rparr>)"
    by (blast intro: run_Cons run.run_Nil)
  moreover have "?s2\<lparr>sub_pump := P_Select\<rparr> = s\<lparr>sub_ch := ms\<rparr>" using assms by simp
  ultimately show ?thesis by (simp only:)
qed

lemma pump_drain:
  "sub_pump s = P_Select \<Longrightarrow> \<not> sub_overflow s \<Longrightarrow>
    \<exists>as. run pump_step s as (s\<lparr>sub_ch := []\<rparr>) \<and> sends as = map (\<lambda>m. A_Sent m True) (sub_ch s)"
proof (induction "sub_ch s" arbitrary: s)
  case Nil
  have "s\<lparr>sub_ch := []\<rparr> = s" using Nil(1) by simp
  then show ?case using Nil(1) run.run_Nil [of pump_step s] by (intro exI [of _ "[]"]) simp
next
  case (Cons m ms)
  let ?s = "s\<lparr>sub_ch := ms\<rparr>"
  from Cons(1) [of ?s] Cons(3,4) obtain as where as: "run pump_step ?s as (s\<lparr>sub_ch := []\<rparr>)"
    "sends as = map (\<lambda>m. A_Sent m True) ms" by auto
  have "run pump_step s [A_Recv m, A_Swap False, A_Sent m True] ?s"
    using Cons(2-4) by (intro pump_one) auto
  from run_append [OF this as(1)] as(2) Cons(2)
  show ?case by (intro exI [of _ "[A_Recv m, A_Swap False, A_Sent m True] @ as"]) (simp flip: Cons(2))
qed

lemma pump_after_drop:
  assumes s: "sub_pump s = P_Select" "sub_overflow s" "sub_ch s = m # ms" "sub_onResync s"
  shows "\<exists>as t. run pump_step s as t \<and> sub_ch t = [] \<and> \<not> sub_overflow t \<and> sub_pump t = P_Select \<and>
    sends as = A_Notice (DroppedMsg (sub_BoundSession s)) # A_Resync #
      map (\<lambda>m. A_Sent m True) (sub_ch s)"
proof -
  let ?s1 = "s\<lparr>sub_pump := P_Received m, sub_ch := ms\<rparr>"
  let ?s2 = "?s1\<lparr>sub_pump := P_Notice m, sub_overflow := False\<rparr>"
  let ?s3 = "?s2\<lparr>sub_pump := P_Resync m\<rparr>"
  let ?s4 = "?s3\<lparr>sub_pump := P_Send m\<rparr>"
  let ?s5 = "?s4\<lparr>sub_pump := P_Select\<rparr>"
  have "pump_step s (A_Recv m) ?s1" using s by auto
  moreover have "pump_step ?s1 (A_Swap True) ?s2" using s swap_true [of ?s1 m] by simp
  moreover have "pump_step ?s2 (A_Notice (DroppedMsg (sub_BoundSession s))) ?s3"
    using s notice [of ?s2 m] by simp
  moreover have "pump_step ?s3 A_Resync ?s4" using resync [of ?s3 m] by simp
  moreover have "pump_step ?s4 (A_Sent m True) ?s5" by simp
  ultimately have first: "run pump_step s [A_Recv m, A_Swap True,
      A_Notice (DroppedMsg (sub_BoundSession s)), A_Resync, A_Sent m True] ?s5"
    by (blast intro: run_Cons run.run_Nil)
  from pump_drain [of ?s5] obtain as where as: "run pump_step ?s5 as (?s5\<lparr>sub_ch := []\<rparr>)"
    "sends as = map (\<lambda>m. A_Sent m True) ms" by auto
  from run_append [OF first as(1)] as(2) s(3) show ?thesis
    by (intro exI conjI) (auto simp del: Sub.update_convs intro: exI)
qed

section \<open>Invariant of the bus and effect of its operations\<close>

definition bus_inv :: "Bus \<Rightarrow> bool" where
  "bus_inv b \<longleftrightarrow> distinct (b_subs b) \<and> (\<forall>p \<in> set (b_subs b). p < length (b_heap b)) \<and>
     (\<forall>p \<in> set (b_subs b). \<not> sub_done (b_heap b ! p)) \<and> (\<forall>s \<in> set (b_heap b). sub_inv s)"

lemma modify_sub_sel [simp]:
  "b_subs (modify_sub p f b) = b_subs b" "length (b_heap (modify_sub p f b)) = length (b_heap b)"
  "b_heap (modify_sub p f b) ! q =
     (if q = p \<and> p < length (b_heap b) then f (b_heap b ! p) else b_heap b ! q)"
  by (auto simp: modify_sub_def list_update_beyond)

lemma fold_modify_sub:
  assumes "distinct ps"
  shows "b_subs (fold (\<lambda>p. modify_sub p f) ps b) = b_subs b"
    and "length (b_heap (fold (\<lambda>p. modify_sub p f) ps b)) = length (b_heap b)"
    and "q < length (b_heap b) \<Longrightarrow> b_heap (fold (\<lambda>p. modify_sub p f) ps b) ! q =
      (if q \<in> set ps then f (b_heap b ! q) else b_heap b ! q)"
  using assms by (induction ps arbitrary: b) auto

lemma Publish_sel:
  assumes "bus_inv b" "range_order visit"
  shows "b_subs (Publish visit sid msg b) = b_subs b"
    and "length (b_heap (Publish visit sid msg b)) = length (b_heap b)"
    and "q < length (b_heap b) \<Longrightarrow> b_heap (Publish visit sid msg b) ! q =
      (if q \<in> set (b_subs b) then offer sid msg (b_heap b ! q) else b_heap b ! q)"
  using assms by (simp_all add: Publish_def fold_modify_sub range_order_simps bus_inv_def)

lemma Publish_spec:
  assumes "bus_inv b" "range_order visit"
  shows "Publish visit sid msg b =
    b\<lparr>b_heap := map (\<lambda>p. if p \<in> set (b_subs b) then offer sid msg (b_heap b ! p) else b_heap b ! p)
       [0..<length (b_heap b)]\<rparr>"
  using Publish_sel [OF assms] by (intro Bus.equality nth_equalityI) (auto intro!: nth_equalityI)

lemma Subscribe_sel [simp]:
  "fst (Subscribe opt b) = length (b_heap b)"
  "b_subs (snd (Subscribe opt b)) = b_subs b @ [length (b_heap b)]"
  "b_heap (snd (Subscribe opt b)) = b_heap b @ [new_sub opt]"
  by (simp_all add: Subscribe_def Let_def)

lemma Unsubscribe_None [simp]: "Unsubscribe None b = b"
  by (simp add: Unsubscribe_def)

lemma Unsubscribe_sel [simp]:
  "b_subs (Unsubscribe (Some p) b) = removeAll p (b_subs b)"
  "length (b_heap (Unsubscribe sp b)) = length (b_heap b)"
  "b_heap (Unsubscribe (Some p) b) ! q =
     (if q = p \<and> p < length (b_heap b) then stop_sub (b_heap b ! p) else b_heap b ! q)"
  by (auto simp: Unsubscribe_def split: option.splits)

lemma stop_sub_sel [simp]:
  "sub_sink (stop_sub s) = sub_sink s" "sub_Mode (stop_sub s) = sub_Mode s"
  "sub_BoundSession (stop_sub s) = sub_BoundSession s" "sub_ch (stop_sub s) = sub_ch s"
  "sub_ActivityPane (stop_sub s) = sub_ActivityPane s"
  by (simp_all add: stop_sub_def)

lemma offer_sel [simp]:
  "sub_sink (offer sid msg s) = sub_sink s" "sub_Mode (offer sid msg s) = sub_Mode s"
  "sub_BoundSession (offer sid msg s) = sub_BoundSession s"
  "sub_ActivityPane (offer sid msg s) = sub_ActivityPane s"
  "sub_done (offer sid msg s) = sub_done s"
  by (simp_all add: offer_def)

lemma bind_unbound_sel [simp]:
  "sub_sink (bind_unbound sid s) = sub_sink s" "sub_Mode (bind_unbound sid s) = sub_Mode s"
  "sub_ActivityPane (bind_unbound sid s) = sub_ActivityPane s"
  "sub_done (bind_unbound sid s) = sub_done s"
  by (simp_all add: bind_unbound_def)

lemma Rebind_subs [simp]: "b_subs (Rebind sp sid b) = b_subs b"
  "length (b_heap (Rebind sp sid b)) = length (b_heap b)"
  by (auto simp: Rebind_def split: option.splits)

lemma Rebind_heap:
  "b_heap (Rebind (Some p) sid b) ! q =
     (if q = p \<and> p \<in> set (b_subs b) \<and> p < length (b_heap b) then bind_unbound sid (b_heap b ! p)
      else b_heap b ! q)"
  by (auto simp: Rebind_def)

lemma sub_inv_nth: "bus_inv b \<Longrightarrow> p < length (b_heap b) \<Longrightarrow> sub_inv (b_heap b ! p)"
  by (simp add: bus_inv_def)

lemma bus_inv_nthI:
  assumes "distinct (b_subs b)" and "\<And>p. p \<in> set (b_subs b) \<Longrightarrow> p < length (b_heap b)"
    and "\<And>p. p \<in> set (b_subs b) \<Longrightarrow> \<not> sub_done (b_heap b ! p)"
    and "\<And>p. p < length (b_heap b) \<Longrightarrow> sub_inv (b_heap b ! p)"
  shows "bus_inv b"
  using assms by (auto simp: bus_inv_def in_set_conv_nth)

lemma bus_inv_New [simp]: "bus_inv New_bus"
  by (simp add: bus_inv_def New_bus_def)

lemma bus_inv_Subscribe: "bus_inv b \<Longrightarrow> bus_inv (snd (Subscribe opt b))"
  by (auto simp: bus_inv_def nth_append) (auto simp: new_sub_def)

lemma bus_inv_Rebind:
  assumes "bus_inv b"
  shows "bus_inv (Rebind sp sid b)"
proof (cases sp)
  case None
  with assms show ?thesis by (simp add: Rebind_def)
next
  case (Some p)
  show ?thesis unfolding Some
    by (rule bus_inv_nthI; use assms in \<open>simp add: Rebind_heap sub_inv_nth sub_inv_bind\<close>)
       (auto simp: bus_inv_def)
qed

lemma bus_inv_Unsubscribe:
  assumes "bus_inv b"
  shows "bus_inv (Unsubscribe sp b)"
proof (cases sp)
  case None
  with assms show ?thesis by simp
next
  case (Some p)
  show ?thesis unfolding Some
    by (rule bus_inv_nthI; use assms in \<open>simp add: sub_inv_nth sub_inv_stop\<close>)
       (auto simp: bus_inv_def distinct_removeAll)
qed

lemma bus_inv_Publish:
  assumes "bus_inv b" "range_order visit"
  shows "bus_inv (Publish visit sid msg b)"
  by (rule bus_inv_nthI; use assms in \<open>simp add: Publish_sel sub_inv_nth sub_inv_offer\<close>)
     (use assms in \<open>auto simp: bus_inv_def Publish_sel\<close>)

lemma fold_Unsubscribe:
  assumes "bus_inv b" "set ps \<subseteq> set (b_subs b)"
  shows "bus_inv (fold (\<lambda>p. Unsubscribe (Some p)) ps b)"
    and "b_subs (fold (\<lambda>p. Unsubscribe (Some p)) ps b) = filter (\<lambda>p. p \<notin> set ps) (b_subs b)"
    and "length (b_heap (fold (\<lambda>p. Unsubscribe (Some p)) ps b)) = length (b_heap b)"
    and "sub_sink (b_heap (fold (\<lambda>p. Unsubscribe (Some p)) ps b) ! q) = sub_sink (b_heap b ! q)"
proof -
  have "bus_inv (fold (\<lambda>p. Unsubscribe (Some p)) ps b) \<and>
     b_subs (fold (\<lambda>p. Unsubscribe (Some p)) ps b) = filter (\<lambda>p. p \<notin> set ps) (b_subs b) \<and>
     length (b_heap (fold (\<lambda>p. Unsubscribe (Some p)) ps b)) = length (b_heap b) \<and>
     sub_sink (b_heap (fold (\<lambda>p. Unsubscribe (Some p)) ps b) ! q) = sub_sink (b_heap b ! q)"
    using assms(1)
    by (induction ps arbitrary: b)
       (auto simp: bus_inv_Unsubscribe removeAll_filter_not_eq intro!: filter_cong)
  then show "bus_inv (fold (\<lambda>p. Unsubscribe (Some p)) ps b)"
    and "b_subs (fold (\<lambda>p. Unsubscribe (Some p)) ps b) = filter (\<lambda>p. p \<notin> set ps) (b_subs b)"
    and "length (b_heap (fold (\<lambda>p. Unsubscribe (Some p)) ps b)) = length (b_heap b)"
    and "sub_sink (b_heap (fold (\<lambda>p. Unsubscribe (Some p)) ps b) ! q) = sub_sink (b_heap b ! q)"
    by blast+
qed

lemma UnregisterSink_sel:
  assumes "bus_inv b" "range_order visit"
  shows "bus_inv (UnregisterSink visit sk b)"
    and "b_subs (UnregisterSink visit sk b) = filter (\<lambda>p. sub_sink (b_heap b ! p) \<noteq> sk) (b_subs b)"
    and "length (b_heap (UnregisterSink visit sk b)) = length (b_heap b)"
    and "sub_sink (b_heap (UnregisterSink visit sk b) ! q) = sub_sink (b_heap b ! q)"
  using assms
  by (auto simp: UnregisterSink_def Let_def fold_Unsubscribe range_order_set intro!: filter_cong)

end
