(* ===== verification/Subscriptions.thy ===== *)
theory Subscriptions
  imports Bus
begin

text \<open>
  The interface between the server and the bus: which subscriptions are live, which
  connection each one writes to, and how the operations change that. The server keeps a table
  from connections to subscriptions; the client lemmas say that the table only ever points
  at live subscriptions of its own connection.
\<close>

definition table_ok :: "'p set \<Rightarrow> ('p \<Rightarrow> 'k) \<Rightarrow> ('k, 'p) gomap \<Rightarrow> bool" where
  "table_ok alive owner t \<longleftrightarrow> map_wf t \<and>
     (\<forall>k p. map_of t k = Some p \<longrightarrow> p \<in> alive \<and> owner p = k)"

lemma table_okD:
  "table_ok alive owner t \<Longrightarrow> map_of t k = Some p \<Longrightarrow> p \<in> alive \<and> owner p = k"
  by (simp add: table_ok_def)

lemma table_ok_mem:
  "table_ok alive owner t \<Longrightarrow> (k, p) \<in> set t \<Longrightarrow> p \<in> alive \<and> owner p = k"
  by (simp add: table_ok_def)

lemma table_ok_cong:
  assumes "table_ok alive owner t" and "\<And>p. p \<in> alive \<Longrightarrow> p \<in> alive' \<and> owner' p = owner p"
  shows "table_ok alive' owner' t"
  using assms by (auto simp: table_ok_def)

locale pubsub =
  fixes ok :: "'b \<Rightarrow> bool"
    and live :: "'b \<Rightarrow> 'p set"
    and owner :: "'b \<Rightarrow> 'p \<Rightarrow> 'k"
    and fair :: "'v \<Rightarrow> bool"
    and subscribe :: "'o \<Rightarrow> 'b \<Rightarrow> 'p \<times> 'b"
    and opt_sink :: "'o \<Rightarrow> 'k"
    and unsubscribe :: "'p option \<Rightarrow> 'b \<Rightarrow> 'b"
    and unregister :: "'v \<Rightarrow> 'k \<Rightarrow> 'b \<Rightarrow> 'b"
  assumes fresh: "ok b \<Longrightarrow> fst (subscribe opt b) \<notin> live b"
    and ok_subscribe: "ok b \<Longrightarrow> ok (snd (subscribe opt b))"
    and live_subscribe: "ok b \<Longrightarrow>
      live (snd (subscribe opt b)) = insert (fst (subscribe opt b)) (live b)"
    and owner_subscribe: "ok b \<Longrightarrow> p \<in> live (snd (subscribe opt b)) \<Longrightarrow>
      owner (snd (subscribe opt b)) p =
        (if p = fst (subscribe opt b) then opt_sink opt else owner b p)"
    and ok_unsubscribe: "ok b \<Longrightarrow> ok (unsubscribe sp b)"
    and live_unsubscribe: "ok b \<Longrightarrow> live (unsubscribe sp b) = live b - set_option sp"
    and owner_unsubscribe: "ok b \<Longrightarrow> owner (unsubscribe sp b) p = owner b p"
    and ok_unregister: "ok b \<Longrightarrow> fair v \<Longrightarrow> ok (unregister v k b)"
    and live_unregister: "ok b \<Longrightarrow> fair v \<Longrightarrow>
      live (unregister v k b) = {p \<in> live b. owner b p \<noteq> k}"
    and owner_unregister: "ok b \<Longrightarrow> fair v \<Longrightarrow> owner (unregister v k b) p = owner b p"
begin

abbreviation table :: "'b \<Rightarrow> ('k, 'p) gomap \<Rightarrow> bool" where
  "table b t \<equiv> table_ok (live b) (owner b) t"

lemma table_subscribe:
  assumes "ok b" "table b t"
  shows "table (snd (subscribe opt b)) (AList.update (opt_sink opt) (fst (subscribe opt b)) t)"
  using assms fresh [OF assms(1), of opt]
  by (auto simp: table_ok_def live_subscribe owner_subscribe split: if_splits)

lemma table_unsubscribe:
  assumes "ok b" "table b t"
  shows "table (unsubscribe (map_of t k) b) (AList.delete k t)"
  using assms
  by (cases "map_of t k")
     (auto simp: table_ok_def live_unsubscribe owner_unsubscribe map_of_delete_if split: if_splits,
      metis)

lemma table_unregister:
  assumes "ok b" "fair v" "table b t"
  shows "table (unregister v k b) (AList.delete k t)"
  using assms
  by (auto simp: table_ok_def live_unregister owner_unregister map_of_delete_if split: if_splits)

lemma unregister_silences: "ok b \<Longrightarrow> fair v \<Longrightarrow> p \<in> live (unregister v k b) \<Longrightarrow> owner b p \<noteq> k"
  by (simp add: live_unregister)

text \<open>A second subscription on a connection hides the first from the table but leaves it live.\<close>

lemma resubscribed_stays_live:
  assumes "ok b" "subscribe o1 b = (p1, b1)" "subscribe o2 b1 = (p2, b2)"
  shows "p1 \<in> live (unsubscribe (Some p2) b2) \<and> owner (unsubscribe (Some p2) b2) p1 = opt_sink o1"
proof -
  have ok1: "ok b1" and ok2: "ok b2"
    using assms ok_subscribe by (metis snd_conv)+
  have p1: "p1 \<in> live b1" "owner b1 p1 = opt_sink o1"
    using assms(1,2) live_subscribe [of b o1] owner_subscribe [of b p1 o1] by auto
  then have "p1 \<noteq> p2" using fresh [OF ok1, of o2] assms(3) by auto
  with p1 ok1 ok2 assms(3) live_subscribe [of b1 o2] owner_subscribe [of b1 p1 o2] show ?thesis
    by (auto simp: live_unsubscribe owner_unsubscribe)
qed

end

abbreviation bus_live :: "Bus \<Rightarrow> subptr set" where
  "bus_live b \<equiv> set (b_subs b)"

abbreviation bus_owner :: "Bus \<Rightarrow> subptr \<Rightarrow> sink" where
  "bus_owner b p \<equiv> sub_sink (b_heap b ! p)"

interpretation bus: pubsub bus_inv bus_live bus_owner "range_order :: subptr visit \<Rightarrow> bool" Subscribe so_Sink Unsubscribe
  UnregisterSink
proof unfold_locales
  fix b :: Bus and opt p k and v :: "subptr visit" and sp :: "subptr option"
  assume b: "bus_inv b"
  show "fst (Subscribe opt b) \<notin> bus_live b" using b by (auto simp: bus_inv_def)
  show "bus_inv (snd (Subscribe opt b))" using b by (rule bus_inv_Subscribe)
  show "bus_live (snd (Subscribe opt b)) = insert (fst (Subscribe opt b)) (bus_live b)" by simp
  show "bus_inv (Unsubscribe sp b)" using b by (rule bus_inv_Unsubscribe)
  show "bus_live (Unsubscribe sp b) = bus_live b - set_option sp"
    by (cases sp) auto
  show "bus_owner (Unsubscribe sp b) p = bus_owner b p" by (cases sp) auto
  show "bus_owner (snd (Subscribe opt b)) p =
      (if p = fst (Subscribe opt b) then so_Sink opt else bus_owner b p)"
    if "p \<in> bus_live (snd (Subscribe opt b))"
    using that b by (auto simp: nth_append new_sub_def bus_inv_def)
  assume v: "range_order v"
  show "bus_inv (UnregisterSink v k b)" "bus_owner (UnregisterSink v k b) p = bus_owner b p"
    "bus_live (UnregisterSink v k b) = {p \<in> bus_live b. bus_owner b p \<noteq> k}"
    using b v by (simp_all add: UnregisterSink_sel)
qed

end
