(* ===== verification/Tmux.thy ===== *)
theory Tmux
  imports Prelude
begin

text \<open>
  The tmux controller (\<open>daemon/internal/tmux/tmux.go\<close>): the interface \<open>Controller\<close>,
  the parser of \<open>list-panes\<close>, and the production implementation \<open>Shell\<close>, which runs the
  tmux binary. The binary is not part of the repository: running a command is the
  parameter \<open>exec\<close>, which takes the argument list and the state of the tmux server.
\<close>

section \<open>Panes and the Controller interface\<close>

record PaneInfo =
  p_ID :: string
  p_SessionID :: string
  p_SessionName :: string
  p_WindowID :: string
  p_ActiveInWindow :: bool
  p_WindowActive :: bool

text \<open>
  What the daemon sees of a controller at one moment: each method's answer at that
  moment. An error is \<open>Inl\<close> of its text (\<open>Some\<close> of it for \<open>FocusPane\<close>).
\<close>

record Controller =
  c_Available :: bool
  c_ListPanes :: "string + PaneInfo list"
  c_FocusPane :: "string \<Rightarrow> string option"
  c_PaneExists :: "string \<Rightarrow> bool"

section \<open>Parsing \<open>list-panes\<close>\<close>

definition parse_line :: "string \<Rightarrow> PaneInfo option" where
  "parse_line line0 =
     (let line = TrimRightByte line0 (CHR 0x0D) in
      if TrimSpace line = [] then None
      else
        let f = Split line (CHR 0x09) in
        if length f < 6 then None
        else Some \<lparr>p_ID = f ! 0, p_SessionID = f ! 1, p_SessionName = f ! 2, p_WindowID = f ! 3,
               p_ActiveInWindow = (f ! 4 = ''1''), p_WindowActive = (f ! 5 = ''1'')\<rparr>)"

definition ParsePanes :: "string \<Rightarrow> PaneInfo list" where
  "ParsePanes out = List.map_filter parse_line (Split out (CHR 0x0A))"

section \<open>The shell controller\<close>

text \<open>
  Running tmux either fails with the error of \<open>Run\<close> and what was written to stderr, or
  gives stdout; the server's state \<open>'w\<close> may change.
\<close>

type_synonym 'w exec = "string list \<Rightarrow> 'w \<Rightarrow> (string \<times> string + string) \<times> 'w"

definition cmd :: "'w exec \<Rightarrow> string \<Rightarrow> string list \<Rightarrow> 'w \<Rightarrow> (string + string) \<times> 'w" where
  "cmd exec socket args w =
     (let full = (if socket \<noteq> [] then [''-S'', socket] @ args else args) in
      case exec full w of
        (Inl (err, stderr), w') \<Rightarrow>
          (Inl (''tmux '' @ Join args '' '' @ '': '' @ err @ '': '' @ TrimSpace stderr), w')
      | (Inr out, w') \<Rightarrow> (Inr out, w'))"

definition paneFmt :: string where
  "paneFmt = ''#{pane_id}'' @ [CHR 0x09] @ ''#{session_id}'' @ [CHR 0x09] @ ''#{session_name}''
     @ [CHR 0x09] @ ''#{window_id}'' @ [CHR 0x09] @ ''#{pane_active}'' @ [CHR 0x09] @ ''#{window_active}''"

definition list_panes_args :: "string list" where
  "list_panes_args = [''list-panes'', ''-a'', ''-F'', paneFmt]"

definition ListPanes :: "'w exec \<Rightarrow> string \<Rightarrow> 'w \<Rightarrow> (string + PaneInfo list) \<times> 'w" where
  "ListPanes exec socket w =
     (case cmd exec socket list_panes_args w of
        (Inl err, w') \<Rightarrow> (Inl err, w')
      | (Inr out, w') \<Rightarrow> (Inr (ParsePanes out), w'))"

definition FocusPane :: "'w exec \<Rightarrow> string \<Rightarrow> string \<Rightarrow> 'w \<Rightarrow> string option \<times> 'w" where
  "FocusPane exec socket paneID w =
     (case ListPanes exec socket w of
        (Inl err, w1) \<Rightarrow> (Some err, w1)
      | (Inr panes, w1) \<Rightarrow>
          (case find (\<lambda>p. p_ID p = paneID) panes of
             None \<Rightarrow> (Some (''tmux: pane '' @ paneID @ '' not found''), w1)
           | Some p \<Rightarrow>
               (case cmd exec socket [''select-window'', ''-t'', p_WindowID p] w1 of
                  (Inl err, w2) \<Rightarrow> (Some err, w2)
                | (Inr _, w2) \<Rightarrow>
                    (case cmd exec socket [''select-pane'', ''-t'', paneID] w2 of
                       (Inl err, w3) \<Rightarrow> (Some err, w3)
                     | (Inr _, w3) \<Rightarrow> (None, w3)))))"

definition PaneExists :: "'w exec \<Rightarrow> string \<Rightarrow> string \<Rightarrow> 'w \<Rightarrow> bool \<times> 'w" where
  "PaneExists exec socket paneID w =
     (case ListPanes exec socket w of
        (Inl err, w1) \<Rightarrow> (False, w1)
      | (Inr panes, w1) \<Rightarrow> (\<exists>p \<in> set panes. p_ID p = paneID, w1))"

text \<open>
  \<open>NewShell\<close> as the daemon sees it when the tmux server is in state \<open>w\<close>; \<open>onPath\<close> is
  the outcome of \<open>exec.LookPath\<close>.
\<close>

definition NewShell :: "'w exec \<Rightarrow> bool \<Rightarrow> 'w \<Rightarrow> string \<Rightarrow> Controller" where
  "NewShell exec onPath w socket =
     \<lparr>c_Available = onPath, c_ListPanes = fst (ListPanes exec socket w),
      c_FocusPane = (\<lambda>p. fst (FocusPane exec socket p w)),
      c_PaneExists = (\<lambda>p. fst (PaneExists exec socket p w))\<rparr>"

section \<open>The contract of a controller\<close>

text \<open>
  What the server relies on: existence is membership in the listing, and focusing succeeds
  only for a listed pane.
\<close>

locale controller =
  fixes ctrl :: Controller
  assumes exists_listed: "c_PaneExists ctrl p \<longleftrightarrow>
      (\<exists>ps. c_ListPanes ctrl = Inr ps \<and> p \<in> p_ID ` set ps)"
    and focus_listed: "c_FocusPane ctrl p = None \<Longrightarrow>
      (\<exists>ps. c_ListPanes ctrl = Inr ps \<and> p \<in> p_ID ` set ps)"
begin

lemma focus_exists: "c_FocusPane ctrl p = None \<Longrightarrow> c_PaneExists ctrl p"
  by (simp add: exists_listed focus_listed)

lemma listing_fails: "c_ListPanes ctrl = Inl e \<Longrightarrow> \<not> c_PaneExists ctrl p \<and> c_FocusPane ctrl p \<noteq> None"
  using exists_listed focus_listed by fastforce

end

lemma shell_exists_listed:
  "c_PaneExists (NewShell exec onPath w socket) p \<longleftrightarrow>
     (\<exists>ps. c_ListPanes (NewShell exec onPath w socket) = Inr ps \<and> p \<in> p_ID ` set ps)"
  by (auto simp: NewShell_def PaneExists_def split: prod.splits sum.splits)

lemma shell_focus_listed:
  "c_FocusPane (NewShell exec onPath w socket) p = None \<Longrightarrow>
     (\<exists>ps. c_ListPanes (NewShell exec onPath w socket) = Inr ps \<and> p \<in> p_ID ` set ps)"
  by (auto simp: NewShell_def FocusPane_def find_Some_iff split: prod.splits sum.splits option.splits)

interpretation shell: controller "NewShell exec onPath w socket"
  by unfold_locales (simp_all add: shell_exists_listed shell_focus_listed)

section \<open>What \<open>tmux list-panes\<close> prints is read back\<close>

definition flag :: "bool \<Rightarrow> string" where
  "flag b = (if b then ''1'' else ''0'')"

definition render_pane :: "PaneInfo \<Rightarrow> string" where
  "render_pane p = Join [p_ID p, p_SessionID p, p_SessionName p, p_WindowID p,
     flag (p_ActiveInWindow p), flag (p_WindowActive p)] [CHR 0x09]"

definition plain_pane :: "PaneInfo \<Rightarrow> bool" where
  "plain_pane p \<longleftrightarrow> (\<forall>f \<in> {p_ID p, p_SessionID p, p_SessionName p, p_WindowID p}.
     CHR 0x09 \<notin> set f \<and> CHR 0x0A \<notin> set f)"

lemma flag_chars [simp]: "CHR 0x09 \<notin> set (flag b)" "CHR 0x0A \<notin> set (flag b)" "flag b \<noteq> []"
  "flag b = ''1'' \<longleftrightarrow> b" "last (flag b) \<noteq> CHR 0x0D"
  by (simp_all add: flag_def)

lemma flag_byte: "\<exists>c. c \<in> set (flag b) \<and> c \<notin> space_bytes"
  by (cases b) (auto simp: flag_def space_bytes_def space_runes_def)

lemma parse_render:
  assumes "plain_pane p"
  shows "parse_line (render_pane p) = Some p"
proof -
  have "last (render_pane p) = last (flag (p_WindowActive p))" and ne: "render_pane p \<noteq> []"
    by (auto simp: render_pane_def)
  then have trim: "TrimRightByte (render_pane p) (CHR 0x0D) = render_pane p"
    by (simp add: TrimRightByte_id)
  obtain c where "c \<in> set (flag (p_WindowActive p))" and c: "c \<notin> space_bytes"
    using flag_byte by blast
  then have "c \<in> set (render_pane p)" by (simp add: render_pane_def)
  from TrimSpace_keeps [OF this c] have nonblank: "TrimSpace (render_pane p) \<noteq> []" by auto
  have "Split (render_pane p) (CHR 0x09) =
      [p_ID p, p_SessionID p, p_SessionName p, p_WindowID p,
       flag (p_ActiveInWindow p), flag (p_WindowActive p)]"
    unfolding render_pane_def using assms by (intro Split_Join) (auto simp: plain_pane_def)
  with trim nonblank show ?thesis by (simp add: parse_line_def Let_def)
qed

lemma render_no_newline: "plain_pane p \<Longrightarrow> CHR 0x0A \<notin> set (render_pane p)"
  by (simp add: render_pane_def plain_pane_def)

lemma parse_line_blank [simp]: "parse_line [] = None"
  by (simp add: parse_line_def TrimRightByte_def TrimSpace_def)

lemma ParsePanes_render:
  "\<forall>p \<in> set ps. plain_pane p \<Longrightarrow>
     ParsePanes (concat (map (\<lambda>p. render_pane p @ [CHR 0x0A]) ps)) = ps"
proof (induction ps)
  case Nil
  then show ?case by (simp add: ParsePanes_def map_filter_simps)
next
  case (Cons p ps)
  then show ?case
    by (simp add: ParsePanes_def map_filter_simps Split_append render_no_newline parse_render)
qed

end
