(* ===== verification/Core.thy ===== *)
theory Core
  imports Convergence Subscriptions Tmux
begin

text \<open>
  The daemon's message handler (\<open>daemon/internal/server/core.go\<close>): the state of
  \<open>Core\<close>, one definition per method, composed as the code composes them. Sends to a
  connection and focus operations are recorded in order; a goroutine the code starts is a
  task that is put in the list of pending tasks and run later, at any time and in any order.
\<close>

section \<open>State\<close>

type_synonym TmuxFactory = "string \<Rightarrow> Controller option"

text \<open>A focus that was issued: the tmux socket, the pane, and the error if it failed.\<close>

record focus_op =
  fo_socket :: string
  fo_pane :: string
  fo_error :: "string option"

text \<open>
  Pending work: the rest of an emit's handling after its ack (\<open>EmitTail\<close>), the goroutine
  \<open>afterEmit\<close>, its second half after rebinding, and the goroutine of a focus request.
\<close>

datatype task =
  EmitTail EmitMessage Update
| AfterEmit EmitMessage Update
| ApplyFocus string State
| FocusReq subptr

record Core =
  co_version :: string
  co_reg :: Registry
  co_bus :: Bus
  co_factory :: "TmuxFactory option"
  co_subs :: "(sink, subptr) gomap"
  co_sent :: "(sink \<times> Message) list"
  co_focus :: "focus_op list"
  co_tasks :: "task list"

text \<open>
  What the runtime decides during one call: the clock, the order of each \<open>range\<close> over a
  map (numbered where a call ranges several times), and \<open>strconv.Quote\<close>.
\<close>

record Runtime =
  rt_now :: "nat \<Rightarrow> Time"
  rt_sessions :: "nat \<Rightarrow> Session visit"
  rt_table :: "nat \<Rightarrow> (sink \<times> subptr) visit"
  rt_ptrs :: "subptr visit"
  rt_ids :: "string visit"
  rt_Quote :: "string \<Rightarrow> string"

definition rt_ok :: "Runtime \<Rightarrow> bool" where
  "rt_ok rt \<longleftrightarrow> (\<forall>n. range_order (rt_sessions rt n)) \<and> (\<forall>n. range_order (rt_table rt n)) \<and>
     range_order (rt_ptrs rt) \<and> range_order (rt_ids rt)"

lemma rt_okD [simp, intro]:
  assumes "rt_ok rt"
  shows "range_order (rt_sessions rt n)" "range_order (rt_table rt n)"
    "range_order (rt_ptrs rt)" "range_order (rt_ids rt)"
  using assms by (simp_all add: rt_ok_def)

definition NewCore :: "string \<Rightarrow> TmuxFactory option \<Rightarrow> Core" where
  "NewCore version factory =
     \<lparr>co_version = version, co_reg = New_registry, co_bus = New_bus, co_factory = factory,
      co_subs = [], co_sent = [], co_focus = [], co_tasks = []\<rparr>"

definition Send :: "sink \<Rightarrow> Message \<Rightarrow> Core \<Rightarrow> Core" where
  "Send sk msg c = c\<lparr>co_sent := co_sent c @ [(sk, msg)]\<rparr>"

definition spawn :: "task \<Rightarrow> Core \<Rightarrow> Core" where
  "spawn t c = c\<lparr>co_tasks := co_tasks c @ [t]\<rparr>"

section \<open>Queries\<close>

definition sub_at :: "Core \<Rightarrow> subptr \<Rightarrow> Sub" where
  "sub_at c p = b_heap (co_bus c) ! p"

definition listSubs :: "(sink \<times> subptr) visit \<Rightarrow> Core \<Rightarrow> Sub list" where
  "listSubs visit c = map (\<lambda>(sk, p). sub_at c p) (visit (co_subs c))"

definition mostRecentID :: "Session visit \<Rightarrow> Core \<Rightarrow> string" where
  "mostRecentID visit c = (case MostRecent visit (co_reg c) of Some s \<Rightarrow> s_ID s | None \<Rightarrow> [])"

definition reasonOf :: "EmitMessage \<Rightarrow> string" where
  "reasonOf m =
     (case em_Meta m of
        None \<Rightarrow> em_Event m
      | Some meta \<Rightarrow>
          (case map_of meta ''reason'' of
             Some (JStr r) \<Rightarrow> if r \<noteq> [] then r else em_Event m
           | _ \<Rightarrow> em_Event m))"

definition activityPaneFor :: "(sink \<times> subptr) visit \<Rightarrow> string \<Rightarrow> Core \<Rightarrow> string" where
  "activityPaneFor visit sessionID c =
     (case find (\<lambda>s. sub_BoundSession s = sessionID \<and> sub_ActivityPane s \<noteq> []) (listSubs visit c) of
        Some s \<Rightarrow> sub_ActivityPane s
      | None \<Rightarrow> [])"

section \<open>Snapshots and window-topology binding\<close>

definition snapshotInto :: "Session visit \<Rightarrow> Time \<Rightarrow> sink \<Rightarrow> string \<Rightarrow> Core \<Rightarrow> Core" where
  "snapshotInto visit now sk bound c =
     (let (sid, state) =
        (if bound \<noteq> [] then
           (case Get (co_reg c) bound of
              Some s \<Rightarrow> (bound, s_State s)
            | None \<Rightarrow> (bound, StateUnknown))
         else
           (case MostRecent visit (co_reg c) of
              Some latest \<Rightarrow> (s_ID latest, s_State latest)
            | None \<Rightarrow> (bound, StateUnknown)))
      in Send sk (SnapshotMsg sid state now) c)"

definition window_of :: "string \<Rightarrow> PaneInfo list \<Rightarrow> string" where
  "window_of paneID panes =
     (case find (\<lambda>p. p_ID p = paneID) panes of Some p \<Rightarrow> p_WindowID p | None \<Rightarrow> [])"

definition in_window :: "string \<Rightarrow> PaneInfo list \<Rightarrow> Session \<Rightarrow> bool" where
  "in_window window panes s \<longleftrightarrow>
     s_TmuxPane s \<noteq> [] \<and> (\<exists>p \<in> set panes. p_ID p = s_TmuxPane s \<and> p_WindowID p = window)"

definition latest_of :: "Session \<Rightarrow> Session list \<Rightarrow> Session" where
  "latest_of s ss =
     fold (\<lambda>s best. if time_After (s_LastEventAt s) (s_LastEventAt best) then s else best) ss s"

definition resolveAutoBind :: "Session visit \<Rightarrow> string \<Rightarrow> string \<Rightarrow> Core \<Rightarrow> string" where
  "resolveAutoBind visit activityPane socket c =
     (case co_factory c of
        None \<Rightarrow> mostRecentID visit c
      | Some factory \<Rightarrow>
          if activityPane = [] then mostRecentID visit c
          else
            (case factory socket of
               None \<Rightarrow> mostRecentID visit c
             | Some ctrl \<Rightarrow>
                 if \<not> c_Available ctrl then mostRecentID visit c
                 else
                   (case c_ListPanes ctrl of
                      Inl err \<Rightarrow> mostRecentID visit c
                    | Inr panes \<Rightarrow>
                        let window = window_of activityPane panes in
                        if window = [] then []
                        else
                          (case filter (in_window window panes) (List_sessions visit (co_reg c)) of
                             [] \<Rightarrow> []
                           | s # ss \<Rightarrow> s_ID (latest_of s ss)))))"

fun rebind_loop :: "Runtime \<Rightarrow> string \<Rightarrow> nat \<Rightarrow> (sink \<times> subptr) list \<Rightarrow> Core \<Rightarrow> Core" where
  "rebind_loop rt socket n [] c = c"
| "rebind_loop rt socket n ((sk, p) # work) c =
     (let sid = resolveAutoBind (rt_sessions rt n) (sub_ActivityPane (sub_at c p)) socket c in
      rebind_loop rt socket (Suc n) work
        (if sid \<noteq> [] then
           snapshotInto (rt_sessions rt n) (rt_now rt n) sk sid
             (c\<lparr>co_bus := Rebind (Some p) sid (co_bus c)\<rparr>)
         else c))"

definition rebindUnbound :: "Runtime \<Rightarrow> string \<Rightarrow> Core \<Rightarrow> Core" where
  "rebindUnbound rt socket c =
     (if co_factory c = None then c
      else
        let work = filter (\<lambda>(sk, p). sub_Mode (sub_at c p) = ''auto'' \<and> sub_BoundSession (sub_at c p) = [])
                     (rt_table rt 0 (co_subs c))
        in rebind_loop rt socket 0 work c)"

section \<open>Focus\<close>

definition focusPaneLocked :: "Session \<Rightarrow> string \<Rightarrow> Core \<Rightarrow> Core" where
  "focusPaneLocked s pane c =
     (if pane = [] then c
      else
        (case co_factory c of
           None \<Rightarrow> c
         | Some factory \<Rightarrow>
             (case factory (s_TmuxSocket s) of
                None \<Rightarrow> c
              | Some ctrl \<Rightarrow>
                  if \<not> c_Available ctrl then c
                  else c\<lparr>co_focus := co_focus c @
                         [\<lparr>fo_socket = s_TmuxSocket s, fo_pane = pane, fo_error = c_FocusPane ctrl pane\<rparr>]\<rparr>)))"

definition applyFocus :: "Runtime \<Rightarrow> string \<Rightarrow> State \<Rightarrow> Core \<Rightarrow> Core" where
  "applyFocus rt sessionID to c =
     (if co_factory c = None then c
      else
        (case Get (co_reg c) sessionID of
           None \<Rightarrow> c
         | Some s \<Rightarrow>
             if s_State s \<noteq> to then c
             else if to = StateNeedsAttention then focusPaneLocked s (s_TmuxPane s) c
             else if to = StateWorking then
               focusPaneLocked s (activityPaneFor (rt_table rt 0) sessionID c) c
             else c))"

definition runFocusReq :: "subptr \<Rightarrow> Core \<Rightarrow> Core" where
  "runFocusReq p c =
     (case Get (co_reg c) (sub_BoundSession (sub_at c p)) of
        Some s \<Rightarrow> focusPaneLocked s (s_TmuxPane s) c
      | None \<Rightarrow> c)"

definition handleFocusRequest :: "sink \<Rightarrow> Core \<Rightarrow> Core" where
  "handleFocusRequest sk c =
     (case map_of (co_subs c) sk of
        None \<Rightarrow> Send sk (Ack False ''not bound to a session'') c
      | Some p \<Rightarrow>
          if sub_BoundSession (sub_at c p) = [] then Send sk (Ack False ''not bound to a session'') c
          else Send sk (Ack True [])
                 (if co_factory c \<noteq> None then spawn (FocusReq p) c else c))"

section \<open>Emits\<close>

text \<open>
  \<open>handleEmit\<close> in two parts, because the registry's lock is released in between: the
  application with its ack, and the publication followed by the start of \<open>afterEmit\<close>.
\<close>

definition emit_head :: "Runtime \<Rightarrow> sink \<Rightarrow> EmitMessage \<Rightarrow> Core \<Rightarrow> Core \<times> Update" where
  "emit_head rt sk m c =
     (let (upd, reg) = Apply m (rt_now rt 0) (rt_now rt 1) (co_reg c);
          c1 = c\<lparr>co_reg := reg\<rparr>
      in if \<not> u_Valid upd then (Send sk (Ack False (''unknown event: '' @ em_Event m)) c1, upd)
         else (Send sk (Ack True []) c1, upd))"

definition emit_tail :: "Runtime \<Rightarrow> EmitMessage \<Rightarrow> Update \<Rightarrow> Core \<Rightarrow> Core" where
  "emit_tail rt m upd c =
     spawn (AfterEmit m upd)
       (if u_Changed upd then
          c\<lparr>co_bus := Publish (rt_ptrs rt) (em_SessionID m)
               (StateChangeMsg (em_SessionID m) (u_From upd) (u_To upd) (reasonOf m) (rt_now rt 2))
               (co_bus c)\<rparr>
        else c)"

definition handleEmit :: "Runtime \<Rightarrow> sink \<Rightarrow> EmitMessage \<Rightarrow> Core \<Rightarrow> Core" where
  "handleEmit rt sk m c =
     (let (c1, upd) = emit_head rt sk m c
      in if \<not> u_Valid upd then c1 else emit_tail rt m upd c1)"

definition afterEmit :: "Runtime \<Rightarrow> EmitMessage \<Rightarrow> Update \<Rightarrow> Core \<Rightarrow> Core" where
  "afterEmit rt m upd c =
     (let c1 = rebindUnbound rt (em_TmuxSocket m) c
      in if u_Changed upd then applyFocus rt (em_SessionID m) (u_To upd) c1 else c1)"

section \<open>Subscriptions\<close>

definition handleSubscribe :: "Runtime \<Rightarrow> sink \<Rightarrow> SubscribeMessage \<Rightarrow> Core \<Rightarrow> Core" where
  "handleSubscribe rt sk m c =
     (let mode = (if sb_Mode m = [] then ''auto'' else sb_Mode m) in
      if mode \<noteq> ''auto'' \<and> mode \<noteq> ''any'' \<and> mode \<noteq> ''session'' then
        Send sk (Ack False (''invalid mode: '' @ rt_Quote rt mode)) c
      else
        let bound =
              (if mode = ''auto''
               then resolveAutoBind (rt_sessions rt 0) (sb_ActivityPane m) (sb_TmuxSocket m) c
               else sb_SessionID m);
            (p, bus) = Subscribe
              \<lparr>so_Mode = mode, so_BoundSession = bound, so_ActivityPane = sb_ActivityPane m,
               so_ActivityID = sb_ActivityID m, so_Title = sb_Title m, so_Sink = sk,
               so_OnResync = True\<rparr> (co_bus c);
            c1 = c\<lparr>co_bus := bus, co_subs := AList.update sk p (co_subs c)\<rparr>
        in snapshotInto (rt_sessions rt 1) (rt_now rt 0) sk bound (Send sk (Ack True []) c1))"

definition handleUnsubscribe :: "sink \<Rightarrow> Core \<Rightarrow> Core" where
  "handleUnsubscribe sk c =
     c\<lparr>co_bus := Unsubscribe (map_of (co_subs c) sk) (co_bus c),
       co_subs := AList.delete sk (co_subs c)\<rparr>"

definition Closed :: "Runtime \<Rightarrow> sink \<Rightarrow> Core \<Rightarrow> Core" where
  "Closed rt sk c =
     c\<lparr>co_bus := UnregisterSink (rt_ptrs rt) sk (co_bus c),
       co_subs := AList.delete sk (co_subs c)\<rparr>"

section \<open>Status and dispatch\<close>

definition session_status :: "(sink \<times> subptr) visit \<Rightarrow> Core \<Rightarrow> Session \<Rightarrow> SessionStatus" where
  "session_status visit c s =
     \<lparr>st_SessionID = s_ID s, st_State = s_State s, st_TmuxPane = s_TmuxPane s,
      st_TmuxSession = s_TmuxSession s,
      st_BoundActivities = map sub_ActivityID
        (filter (\<lambda>sub. sub_BoundSession sub = s_ID s \<and> sub_ActivityID sub \<noteq> []) (listSubs visit c)),
      st_LastEventAt = s_LastEventAt s\<rparr>"

definition handleStatus :: "Runtime \<Rightarrow> sink \<Rightarrow> Core \<Rightarrow> Core" where
  "handleStatus rt sk c =
     (let sessions = List_sessions (rt_sessions rt 0) (co_reg c);
          out = map (\<lambda>(n, s). session_status (rt_table rt n) c s) (List.enumerate 0 sessions)
      in Send sk (M_Status \<lparr>e_V = Version, e_Type = ''status'', sr_ServerVersion = co_version c,
           sr_Sessions = out\<rparr>) c)"

definition Handle :: "Runtime \<Rightarrow> sink \<Rightarrow> Message \<Rightarrow> Core \<Rightarrow> Core" where
  "Handle rt sk msg c =
     (case msg of
        M_Emit m \<Rightarrow> handleEmit rt sk m c
      | M_Subscribe m \<Rightarrow> handleSubscribe rt sk m c
      | M_Unsubscribe m \<Rightarrow> handleUnsubscribe sk c
      | M_StatusRequest m \<Rightarrow> handleStatus rt sk c
      | M_FocusRequest m \<Rightarrow> handleFocusRequest sk c
      | M_Ping m \<Rightarrow> Send sk PongMsg c
      | _ \<Rightarrow> c)"

section \<open>Running a pending task\<close>

definition run_task :: "Runtime \<Rightarrow> task \<Rightarrow> Core \<Rightarrow> Core" where
  "run_task rt t c =
     (case t of
        EmitTail m upd \<Rightarrow> emit_tail rt m upd c
      | AfterEmit m upd \<Rightarrow>
          (let c1 = rebindUnbound rt (em_TmuxSocket m) c
           in if u_Changed upd then spawn (ApplyFocus (em_SessionID m) (u_To upd)) c1 else c1)
      | ApplyFocus sid to \<Rightarrow> applyFocus rt sid to c
      | FocusReq p \<Rightarrow> runFocusReq p c)"

end
