(* ===== verification/CoreFacts.thy ===== *)
theory CoreFacts
  imports Core
begin

text \<open>
  The invariant of the handler's state and the facts about each operation that the properties
  rest on: which fields an operation leaves alone, what it sends, and that it keeps the
  invariant. The facts about the table of subscriptions come from the interface
  \<open>pubsub\<close> through its interpretation on the bus.
\<close>

definition core_inv :: "Core \<Rightarrow> bool" where
  "core_inv c \<longleftrightarrow> reg_inv (co_reg c) \<and> bus_inv (co_bus c) \<and>
     table_ok (bus_live (co_bus c)) (bus_owner (co_bus c)) (co_subs c) \<and>
     (\<forall>p. FocusReq p \<in> set (co_tasks c) \<longrightarrow> p < length (b_heap (co_bus c)))"

lemma core_invD:
  assumes "core_inv c"
  shows "reg_inv (co_reg c)" "bus_inv (co_bus c)"
    "table_ok (bus_live (co_bus c)) (bus_owner (co_bus c)) (co_subs c)"
    "FocusReq p \<in> set (co_tasks c) \<Longrightarrow> p < length (b_heap (co_bus c))"
  using assms by (simp_all add: core_inv_def)

lemma bus_live_valid: "bus_inv b \<Longrightarrow> p \<in> bus_live b \<Longrightarrow> p < length (b_heap b)"
  by (simp add: bus_inv_def)

lemma table_valid:
  "core_inv c \<Longrightarrow> map_of (co_subs c) sk = Some p \<Longrightarrow>
     p \<in> bus_live (co_bus c) \<and> p < length (b_heap (co_bus c)) \<and> sub_sink (sub_at c p) = sk"
  using table_okD [OF core_invD(3)] bus_live_valid core_invD(2) by (fastforce simp: sub_at_def)

lemma table_mem_valid:
  "core_inv c \<Longrightarrow> (sk, p) \<in> set (co_subs c) \<Longrightarrow>
     p \<in> bus_live (co_bus c) \<and> p < length (b_heap (co_bus c)) \<and> sub_sink (sub_at c p) = sk"
  using table_ok_mem [OF core_invD(3)] bus_live_valid core_invD(2) by (fastforce simp: sub_at_def)

section \<open>Frames\<close>

lemma Send_sel [simp]:
  "co_version (Send sk m c) = co_version c" "co_reg (Send sk m c) = co_reg c"
  "co_bus (Send sk m c) = co_bus c" "co_factory (Send sk m c) = co_factory c"
  "co_subs (Send sk m c) = co_subs c" "co_sent (Send sk m c) = co_sent c @ [(sk, m)]"
  "co_focus (Send sk m c) = co_focus c" "co_tasks (Send sk m c) = co_tasks c"
  by (simp_all add: Send_def)

lemma spawn_sel [simp]:
  "co_version (spawn t c) = co_version c" "co_reg (spawn t c) = co_reg c"
  "co_bus (spawn t c) = co_bus c" "co_factory (spawn t c) = co_factory c"
  "co_subs (spawn t c) = co_subs c" "co_sent (spawn t c) = co_sent c"
  "co_focus (spawn t c) = co_focus c" "co_tasks (spawn t c) = co_tasks c @ [t]"
  by (simp_all add: spawn_def)

definition snapshot_of :: "Session visit \<Rightarrow> Time \<Rightarrow> string \<Rightarrow> Registry \<Rightarrow> Message" where
  "snapshot_of visit now bound r =
     (if bound \<noteq> [] then
        SnapshotMsg bound (case Get r bound of Some s \<Rightarrow> s_State s | None \<Rightarrow> StateUnknown) now
      else
        (case MostRecent visit r of
           Some s \<Rightarrow> SnapshotMsg (s_ID s) (s_State s) now
         | None \<Rightarrow> SnapshotMsg [] StateUnknown now))"

lemma snapshotInto_eq:
  "snapshotInto visit now sk bound c = Send sk (snapshot_of visit now bound (co_reg c)) c"
  by (auto simp: snapshotInto_def snapshot_of_def Let_def split: option.splits)

lemma focusPaneLocked_sel [simp]:
  "co_version (focusPaneLocked s p c) = co_version c" "co_reg (focusPaneLocked s p c) = co_reg c"
  "co_bus (focusPaneLocked s p c) = co_bus c" "co_factory (focusPaneLocked s p c) = co_factory c"
  "co_subs (focusPaneLocked s p c) = co_subs c" "co_sent (focusPaneLocked s p c) = co_sent c"
  "co_tasks (focusPaneLocked s p c) = co_tasks c"
  by (auto simp: focusPaneLocked_def split: option.splits)

lemma applyFocus_sel [simp]:
  "co_version (applyFocus rt sid to c) = co_version c" "co_reg (applyFocus rt sid to c) = co_reg c"
  "co_bus (applyFocus rt sid to c) = co_bus c" "co_factory (applyFocus rt sid to c) = co_factory c"
  "co_subs (applyFocus rt sid to c) = co_subs c" "co_sent (applyFocus rt sid to c) = co_sent c"
  "co_tasks (applyFocus rt sid to c) = co_tasks c"
  by (auto simp: applyFocus_def split: option.splits)

lemma runFocusReq_sel [simp]:
  "co_reg (runFocusReq p c) = co_reg c" "co_bus (runFocusReq p c) = co_bus c"
  "co_subs (runFocusReq p c) = co_subs c" "co_sent (runFocusReq p c) = co_sent c"
  "co_tasks (runFocusReq p c) = co_tasks c" "co_factory (runFocusReq p c) = co_factory c"
  "co_version (runFocusReq p c) = co_version c"
  by (auto simp: runFocusReq_def split: option.splits)

lemma handleFocusRequest_sel [simp]:
  "co_reg (handleFocusRequest sk c) = co_reg c" "co_bus (handleFocusRequest sk c) = co_bus c"
  "co_subs (handleFocusRequest sk c) = co_subs c" "co_focus (handleFocusRequest sk c) = co_focus c"
  "co_factory (handleFocusRequest sk c) = co_factory c"
  by (auto simp: handleFocusRequest_def split: option.splits)

lemma emit_head_sel [simp]:
  "co_reg (fst (emit_head rt sk m c)) = snd (Apply m (rt_now rt 0) (rt_now rt 1) (co_reg c))"
  "snd (emit_head rt sk m c) = fst (Apply m (rt_now rt 0) (rt_now rt 1) (co_reg c))"
  "co_bus (fst (emit_head rt sk m c)) = co_bus c" "co_subs (fst (emit_head rt sk m c)) = co_subs c"
  "co_tasks (fst (emit_head rt sk m c)) = co_tasks c" "co_focus (fst (emit_head rt sk m c)) = co_focus c"
  "co_factory (fst (emit_head rt sk m c)) = co_factory c"
  "co_version (fst (emit_head rt sk m c)) = co_version c"
  by (auto simp: emit_head_def Let_def split: prod.splits)

lemma co_sent_emit_head [simp]:
  "co_sent (fst (emit_head rt sk m c)) = co_sent c @
     [(sk, if known_event (em_Event m) then Ack True [] else Ack False (''unknown event: '' @ em_Event m))]"
  by (simp add: emit_head_def Let_def case_prod_beta)

lemma emit_tail_sel [simp]:
  "co_reg (emit_tail rt m upd c) = co_reg c" "co_subs (emit_tail rt m upd c) = co_subs c"
  "co_sent (emit_tail rt m upd c) = co_sent c" "co_focus (emit_tail rt m upd c) = co_focus c"
  "co_tasks (emit_tail rt m upd c) = co_tasks c @ [AfterEmit m upd]"
  "co_factory (emit_tail rt m upd c) = co_factory c"
  "co_version (emit_tail rt m upd c) = co_version c"
  by (simp_all add: emit_tail_def)

lemma co_bus_emit_tail:
  "co_bus (emit_tail rt m upd c) =
     (if u_Changed upd
      then Publish (rt_ptrs rt) (em_SessionID m)
        (StateChangeMsg (em_SessionID m) (u_From upd) (u_To upd) (reasonOf m) (rt_now rt 2)) (co_bus c)
      else co_bus c)"
  by (simp add: emit_tail_def)

lemma handleEmit_eq:
  "handleEmit rt sk m c =
     (if known_event (em_Event m)
      then emit_tail rt m (snd (emit_head rt sk m c)) (fst (emit_head rt sk m c))
      else fst (emit_head rt sk m c))"
  by (simp add: handleEmit_def Let_def case_prod_beta)

section \<open>Rebinding\<close>

lemma rebind_loop_sel [simp]:
  "co_version (rebind_loop rt socket n work c) = co_version c"
  "co_reg (rebind_loop rt socket n work c) = co_reg c"
  "co_factory (rebind_loop rt socket n work c) = co_factory c"
  "co_subs (rebind_loop rt socket n work c) = co_subs c"
  "co_focus (rebind_loop rt socket n work c) = co_focus c"
  "co_tasks (rebind_loop rt socket n work c) = co_tasks c"
  "b_subs (co_bus (rebind_loop rt socket n work c)) = b_subs (co_bus c)"
  "length (b_heap (co_bus (rebind_loop rt socket n work c))) = length (b_heap (co_bus c))"
  by (induction rt socket n work c rule: rebind_loop.induct) (simp_all add: Let_def snapshotInto_eq)

lemma rebind_loop_bus_inv: "bus_inv (co_bus c) \<Longrightarrow> bus_inv (co_bus (rebind_loop rt socket n work c))"
  by (induction rt socket n work c rule: rebind_loop.induct)
     (simp_all add: Let_def snapshotInto_eq bus_inv_Rebind)

lemma rebind_loop_owner:
  "sub_sink (b_heap (co_bus (rebind_loop rt socket n work c)) ! q) = sub_sink (b_heap (co_bus c) ! q)"
  by (induction rt socket n work c rule: rebind_loop.induct)
     (simp_all add: Let_def snapshotInto_eq Rebind_heap)

lemma rebindUnbound_sel [simp]:
  "co_version (rebindUnbound rt socket c) = co_version c"
  "co_reg (rebindUnbound rt socket c) = co_reg c"
  "co_factory (rebindUnbound rt socket c) = co_factory c"
  "co_subs (rebindUnbound rt socket c) = co_subs c"
  "co_focus (rebindUnbound rt socket c) = co_focus c"
  "co_tasks (rebindUnbound rt socket c) = co_tasks c"
  "b_subs (co_bus (rebindUnbound rt socket c)) = b_subs (co_bus c)"
  "length (b_heap (co_bus (rebindUnbound rt socket c))) = length (b_heap (co_bus c))"
  "sub_sink (b_heap (co_bus (rebindUnbound rt socket c)) ! q) = sub_sink (b_heap (co_bus c) ! q)"
  by (simp_all add: rebindUnbound_def Let_def rebind_loop_owner)

lemma rebindUnbound_bus_inv: "bus_inv (co_bus c) \<Longrightarrow> bus_inv (co_bus (rebindUnbound rt socket c))"
  by (simp add: rebindUnbound_def Let_def rebind_loop_bus_inv)

section \<open>Every operation keeps the invariant\<close>

lemma core_inv_New [simp]: "core_inv (NewCore v f)"
  by (simp add: core_inv_def NewCore_def table_ok_def New_bus_def[symmetric])

lemma core_inv_Send [simp]: "core_inv (Send sk m c) = core_inv c"
  by (simp add: core_inv_def)

lemma core_inv_spawn:
  "core_inv c \<Longrightarrow> (\<And>p. t = FocusReq p \<Longrightarrow> p < length (b_heap (co_bus c))) \<Longrightarrow> core_inv (spawn t c)"
  by (auto simp: core_inv_def)

text \<open>An operation that keeps the table, the live set, the owners and the registry's invariant.\<close>

lemma core_inv_frame:
  assumes "core_inv c" and "reg_inv (co_reg d)" and "bus_inv (co_bus d)"
    and "co_subs d = co_subs c" and "set (co_tasks d) \<subseteq> set (co_tasks c)"
    and "b_subs (co_bus d) = b_subs (co_bus c)"
    and "length (b_heap (co_bus d)) = length (b_heap (co_bus c))"
    and "\<And>p. p < length (b_heap (co_bus c)) \<Longrightarrow>
      sub_sink (b_heap (co_bus d) ! p) = sub_sink (b_heap (co_bus c) ! p)"
  shows "core_inv d"
  unfolding core_inv_def
proof (intro conjI)
  show "table_ok (bus_live (co_bus d)) (bus_owner (co_bus d)) (co_subs d)"
    unfolding assms(4) using core_invD(3) [OF assms(1)]
    by (rule table_ok_cong) (use assms(6,8) bus_live_valid core_invD(2) [OF assms(1)] in auto)
  show "\<forall>p. FocusReq p \<in> set (co_tasks d) \<longrightarrow> p < length (b_heap (co_bus d))"
    using assms(5,7) core_invD(4) [OF assms(1)] by auto
qed (use assms in auto)

lemma core_inv_emit_head: "core_inv c \<Longrightarrow> core_inv (fst (emit_head rt sk m c))"
  by (rule core_inv_frame) (auto simp: core_invD reg_inv_Apply)

lemma core_inv_emit_tail:
  assumes "core_inv c" "rt_ok rt"
  shows "core_inv (emit_tail rt m upd c)"
proof -
  have "core_inv (c\<lparr>co_bus := co_bus (emit_tail rt m upd c)\<rparr>)"
    using assms by (intro core_inv_frame [OF assms(1)])
      (auto simp: core_invD co_bus_emit_tail bus_inv_Publish Publish_sel)
  then show ?thesis by (auto simp: emit_tail_def intro!: core_inv_spawn split: if_splits)
qed

lemma core_inv_handleEmit: "core_inv c \<Longrightarrow> rt_ok rt \<Longrightarrow> core_inv (handleEmit rt sk m c)"
  by (simp add: handleEmit_eq core_inv_emit_tail core_inv_emit_head)

lemma core_inv_rebindUnbound: "core_inv c \<Longrightarrow> core_inv (rebindUnbound rt socket c)"
  by (rule core_inv_frame) (auto simp: core_invD rebindUnbound_bus_inv)

lemma core_inv_focusPaneLocked: "core_inv c \<Longrightarrow> core_inv (focusPaneLocked s p c)"
  by (rule core_inv_frame) (auto simp: core_invD)

lemma core_inv_applyFocus: "core_inv c \<Longrightarrow> core_inv (applyFocus rt sid to c)"
  by (rule core_inv_frame) (auto simp: core_invD)

lemma core_inv_runFocusReq: "core_inv c \<Longrightarrow> core_inv (runFocusReq p c)"
  by (rule core_inv_frame) (auto simp: core_invD)

lemma core_inv_handleFocusRequest: "core_inv c \<Longrightarrow> core_inv (handleFocusRequest sk c)"
  by (auto simp: handleFocusRequest_def table_valid intro!: core_inv_spawn split: option.splits)

lemma core_inv_subscribe:
  assumes "core_inv c"
  shows "core_inv (c\<lparr>co_bus := snd (Subscribe opt (co_bus c)),
    co_subs := AList.update (so_Sink opt) (fst (Subscribe opt (co_bus c))) (co_subs c)\<rparr>)"
  using assms bus.table_subscribe [OF core_invD(2,3), of c opt]
  by (auto simp: core_inv_def bus.ok_subscribe less_Suc_eq simp del: Subscribe_sel(1,2))

lemma core_inv_handleSubscribe: "core_inv c \<Longrightarrow> core_inv (handleSubscribe rt sk m c)"
  using core_inv_subscribe [of c "\<lparr>so_Mode = _, so_BoundSession = _, so_ActivityPane = _,
    so_ActivityID = _, so_Title = _, so_Sink = sk, so_OnResync = True\<rparr>"]
  by (auto simp: handleSubscribe_def Let_def snapshotInto_eq Subscribe_def)

lemma core_inv_handleUnsubscribe: "core_inv c \<Longrightarrow> core_inv (handleUnsubscribe sk c)"
  using bus.table_unsubscribe [OF core_invD(2,3), of c sk]
  by (auto simp: core_inv_def handleUnsubscribe_def bus.ok_unsubscribe)

lemma core_inv_Closed: "core_inv c \<Longrightarrow> rt_ok rt \<Longrightarrow> core_inv (Closed rt sk c)"
  using bus.table_unregister [OF core_invD(2) _ core_invD(3), of c "rt_ptrs rt" sk]
  by (auto simp: core_inv_def Closed_def bus.ok_unregister UnregisterSink_sel)

lemma core_inv_handleStatus: "core_inv c \<Longrightarrow> core_inv (handleStatus rt sk c)"
  by (simp add: handleStatus_def Let_def)

lemmas core_inv_handlers =
  core_inv_handleEmit core_inv_handleSubscribe core_inv_handleUnsubscribe core_inv_handleStatus
  core_inv_handleFocusRequest core_inv_Closed

lemma core_inv_Handle: "core_inv c \<Longrightarrow> rt_ok rt \<Longrightarrow> core_inv (Handle rt sk msg c)"
  by (cases msg) (simp_all add: Handle_def core_inv_handlers)

lemma core_inv_afterEmit: "core_inv c \<Longrightarrow> core_inv (afterEmit rt m upd c)"
  by (simp add: afterEmit_def Let_def core_inv_applyFocus core_inv_rebindUnbound)

lemma core_inv_run_task: "core_inv c \<Longrightarrow> rt_ok rt \<Longrightarrow> core_inv (run_task rt t c)"
  by (cases t)
     (auto simp: run_task_def Let_def core_inv_emit_tail core_inv_applyFocus core_inv_runFocusReq
        core_inv_rebindUnbound intro!: core_inv_spawn)

end
