(* ===== verification/Janitor.thy ===== *)
theory Janitor
  imports CoreFacts
begin

text \<open>
  The janitor (\<open>daemon/internal/server/janitor.go\<close>): the sweep that reaps sessions whose
  tmux pane is gone and announces the result, its settings, and its loop. Logging through a
  logger whose writer is nil dereferences a nil interface, which is a panic and ends the
  process; the model keeps that outcome.
\<close>

section \<open>State\<close>

datatype writer = NilWriter | RealWriter

datatype panic = NilDereference

record Janitor =
  ja_gcInterval :: Duration
  ja_idleLimit :: Duration
  ja_log :: writer

definition NewJanitor :: Janitor where
  "NewJanitor = \<lparr>ja_gcInterval = 60 * second, ja_idleLimit = 5 * minute, ja_log = NilWriter\<rparr>"

definition SetLogging :: "writer \<Rightarrow> Janitor \<Rightarrow> Janitor" where
  "SetLogging l j = j\<lparr>ja_log := l\<rparr>"

definition SetTimings :: "Duration \<Rightarrow> Duration \<Rightarrow> Janitor \<Rightarrow> Janitor" where
  "SetTimings gcInterval idleLimit j =
     j\<lparr>ja_gcInterval := (if gcInterval > 0 then gcInterval else ja_gcInterval j),
       ja_idleLimit := (if idleLimit > 0 then idleLimit else ja_idleLimit j)\<rparr>"

definition Printf :: "writer \<Rightarrow> panic + unit" where
  "Printf w = (case w of NilWriter \<Rightarrow> Inl NilDereference | RealWriter \<Rightarrow> Inr ())"

section \<open>Sweep\<close>

definition sweep_paneExists :: "TmuxFactory option \<Rightarrow> pane_check" where
  "sweep_paneExists factory paneID socketPath =
     (case factory of
        None \<Rightarrow> True
      | Some f \<Rightarrow>
          if socketPath = [] then True
          else
            (case f socketPath of
               None \<Rightarrow> True
             | Some ctrl \<Rightarrow> if \<not> c_Available ctrl then True else c_PaneExists ctrl paneID))"

fun publish_unknown :: "Runtime \<Rightarrow> nat \<Rightarrow> Session list \<Rightarrow> Bus \<Rightarrow> Bus" where
  "publish_unknown rt n [] b = b"
| "publish_unknown rt n (s # ss) b =
     publish_unknown rt (Suc n) ss
       (if s_State s = StateUnknown
        then Publish (rt_ptrs rt) (s_ID s) (SnapshotMsg (s_ID s) StateUnknown (rt_now rt n)) b
        else b)"

definition Sweep :: "Runtime \<Rightarrow> Janitor \<Rightarrow> Core \<Rightarrow> (panic + nat) \<times> Core" where
  "Sweep rt j c =
     (let (reaped, reg) = GC (ja_idleLimit j) (Some (sweep_paneExists (co_factory c)))
                            (rt_now rt 0) (rt_ids rt) (co_reg c);
          c1 = c\<lparr>co_reg := reg\<rparr>
      in if reaped > 0 then
           (case Printf (ja_log j) of
              Inl p \<Rightarrow> (Inl p, c1)
            | Inr u \<Rightarrow>
                (Inr reaped,
                 c1\<lparr>co_bus := publish_unknown rt 1 (List_sessions (rt_sessions rt 0) reg) (co_bus c)\<rparr>))
         else (Inr reaped, c1))"

text \<open>
  \<open>Run\<close>: the loop over the ticker and the context. A tick sweeps; the cancelled context ends
  the loop; a panic ends it with the process. The result is \<open>None\<close> while the loop still
  waits for the next event.
\<close>

datatype janitor_event = Tick Runtime | Canceled

fun janitor_Run :: "Janitor \<Rightarrow> janitor_event list \<Rightarrow> Core \<Rightarrow> (panic + unit) option \<times> Core" where
  "janitor_Run j [] c = (None, c)"
| "janitor_Run j (Canceled # es) c = (Some (Inr ()), c)"
| "janitor_Run j (Tick rt # es) c =
     (case Sweep rt j c of
        (Inl p, c1) \<Rightarrow> (Some (Inl p), c1)
      | (Inr n, c1) \<Rightarrow> janitor_Run j es c1)"

section \<open>Facts\<close>

lemma idle_default [simp]: "0 < ja_idleLimit NewJanitor"
  by (simp add: NewJanitor_def minute_def second_def millisecond_def nanosecond_def)

lemma SetLogging_idle [simp]: "ja_idleLimit (SetLogging w j) = ja_idleLimit j"
  "ja_log (SetLogging w j) = w"
  by (simp_all add: SetLogging_def)

abbreviation sweep_registry :: "Runtime \<Rightarrow> Janitor \<Rightarrow> Core \<Rightarrow> nat \<times> Registry" where
  "sweep_registry rt j c \<equiv> GC (ja_idleLimit j) (Some (sweep_paneExists (co_factory c)))
     (rt_now rt 0) (rt_ids rt) (co_reg c)"

lemma Sweep_sel [simp]:
  "co_reg (snd (Sweep rt j c)) = snd (sweep_registry rt j c)"
  "co_subs (snd (Sweep rt j c)) = co_subs c" "co_tasks (snd (Sweep rt j c)) = co_tasks c"
  "co_sent (snd (Sweep rt j c)) = co_sent c" "co_focus (snd (Sweep rt j c)) = co_focus c"
  "co_factory (snd (Sweep rt j c)) = co_factory c"
  by (auto simp: Sweep_def Let_def case_prod_beta split: sum.splits)

lemma Sweep_result:
  "fst (Sweep rt j c) =
     (if fst (sweep_registry rt j c) > 0 \<and> ja_log j = NilWriter then Inl NilDereference
      else Inr (fst (sweep_registry rt j c)))"
  by (cases "ja_log j") (auto simp: Sweep_def Let_def case_prod_beta Printf_def)

lemma Sweep_bus:
  "co_bus (snd (Sweep rt j c)) =
     (if fst (sweep_registry rt j c) > 0 \<and> ja_log j \<noteq> NilWriter
      then publish_unknown rt 1 (List_sessions (rt_sessions rt 0) (snd (sweep_registry rt j c))) (co_bus c)
      else co_bus c)"
  by (cases "ja_log j") (auto simp: Sweep_def Let_def case_prod_beta Printf_def)

lemma publish_unknown_sel:
  assumes "bus_inv b" "rt_ok rt"
  shows "bus_inv (publish_unknown rt n ss b)"
    and "b_subs (publish_unknown rt n ss b) = b_subs b"
    and "length (b_heap (publish_unknown rt n ss b)) = length (b_heap b)"
    and "q < length (b_heap b) \<Longrightarrow> sub_sink (b_heap (publish_unknown rt n ss b) ! q) = sub_sink (b_heap b ! q)"
    and "q < length (b_heap b) \<Longrightarrow>
      sub_BoundSession (b_heap (publish_unknown rt n ss b) ! q) = sub_BoundSession (b_heap b ! q) \<and>
      sub_Mode (b_heap (publish_unknown rt n ss b) ! q) = sub_Mode (b_heap b ! q)"
  using assms
  by (induction ss arbitrary: n b) (auto simp: bus_inv_Publish Publish_sel)

lemma core_inv_Sweep:
  assumes "core_inv c" "rt_ok rt"
  shows "core_inv (snd (Sweep rt j c))"
  using assms
  by (intro core_inv_frame [OF assms(1)])
     (auto simp: core_invD reg_inv_GC Sweep_bus publish_unknown_sel)

text \<open>
  A subscription is told about each unknown session it follows: after the announcement
  its buffer holds the snapshot, or its overflow flag is up.
\<close>

definition told :: "Message \<Rightarrow> Sub \<Rightarrow> bool" where
  "told msg s \<longleftrightarrow> msg \<in> set (sub_ch s) \<or> sub_overflow s"

lemma told_offer:
  "matches s sid \<Longrightarrow> told msg (offer sid msg s)" "told m s \<Longrightarrow> told m (offer sid msg s)"
  by (auto simp: told_def offer_def)

lemma matches_offer [simp]: "matches (offer sid msg s) x = matches s x"
  by (simp add: matches_def)

lemma told_Publish:
  assumes "bus_inv b" "range_order v" "p < length (b_heap b)" "told m (b_heap b ! p)"
  shows "told m (b_heap (Publish v sid msg b) ! p)"
  using assms by (simp add: Publish_sel told_offer)

lemma publish_unknown_keeps:
  assumes "bus_inv b" "rt_ok rt" "p < length (b_heap b)" and "told m (b_heap b ! p)"
  shows "told m (b_heap (publish_unknown rt n ss b) ! p)"
  using assms
  by (induction ss arbitrary: n b) (simp_all add: bus_inv_Publish Publish_sel(2) told_Publish)

lemma publish_unknown_tells:
  assumes "bus_inv b" "rt_ok rt" "p \<in> bus_live b"
    and "s \<in> set ss" "s_State s = StateUnknown" "matches (b_heap b ! p) (s_ID s)"
  shows "\<exists>now. told (SnapshotMsg (s_ID s) StateUnknown now) (b_heap (publish_unknown rt n ss b) ! p)"
  using assms
proof (induction ss arbitrary: n b)
  case Nil
  then show ?case by simp
next
  case (Cons x ss)
  have p: "p < length (b_heap b)" using Cons.prems(1,3) by (rule bus_live_valid)
  let ?b = "if s_State x = StateUnknown
    then Publish (rt_ptrs rt) (s_ID x) (SnapshotMsg (s_ID x) StateUnknown (rt_now rt n)) b else b"
  have b': "bus_inv ?b" "p \<in> bus_live ?b" "p < length (b_heap ?b)"
    "matches (b_heap ?b ! p) (s_ID s) = matches (b_heap b ! p) (s_ID s)"
    using Cons.prems p by (auto simp: bus_inv_Publish Publish_sel)
  show ?case
  proof (cases "s \<in> set ss")
    case True
    with Cons.IH [of ?b "Suc n"] b' Cons.prems show ?thesis by simp
  next
    case False
    then have "x = s" using Cons.prems(4) by simp
    then have "told (SnapshotMsg (s_ID s) StateUnknown (rt_now rt n)) (b_heap ?b ! p)"
      using Cons.prems p told_offer(1) by (simp add: Publish_sel)
    from publish_unknown_keeps [OF b'(1) Cons.prems(2) b'(3) this, of "Suc n" ss] show ?thesis by auto
  qed
qed

end
