(* ===== verification/Daemon.thy ===== *)
theory Daemon
  imports Janitor
begin

text \<open>
  The daemon as a transition system: connection goroutines, the goroutines they start, the
  pumps, the janitor, and the tmux server moving on its own, interleaved in any order. A
  step is one critical section of the code or one pump step. An emit takes two steps
  (\<open>emit_head\<close>, then the pending \<open>EmitTail\<close>) because the code releases the registry's lock
  before it publishes.
\<close>

section \<open>Steps\<close>

datatype label =
  L_Emit sink EmitMessage
| L_Message sink Message
| L_Closed sink
| L_Task task
| L_Focus string State bool
| L_Pump subptr pump_act
| L_Sweep nat
| L_Tmux

definition is_emit :: "Message \<Rightarrow> bool" where
  "is_emit msg = (case msg of M_Emit m \<Rightarrow> True | _ \<Rightarrow> False)"

definition is_focus :: "task \<Rightarrow> bool" where
  "is_focus t = (case t of ApplyFocus sid to \<Rightarrow> True | _ \<Rightarrow> False)"

definition take_task :: "task \<Rightarrow> Core \<Rightarrow> Core" where
  "take_task t c = c\<lparr>co_tasks := remove1 t (co_tasks c)\<rparr>"

definition is_current :: "string \<Rightarrow> State \<Rightarrow> Core \<Rightarrow> bool" where
  "is_current sid to c = (case Get (co_reg c) sid of None \<Rightarrow> False | Some s \<Rightarrow> s_State s = to)"

definition start_emit :: "Runtime \<Rightarrow> sink \<Rightarrow> EmitMessage \<Rightarrow> Core \<Rightarrow> Core" where
  "start_emit rt sk m c =
     (let (c1, upd) = emit_head rt sk m c in if u_Valid upd then spawn (EmitTail m upd) c1 else c1)"

text \<open>What a pump step does beyond its own subscription: writes, or the resync callback.\<close>

definition pump_effect :: "Runtime \<Rightarrow> Sub \<Rightarrow> pump_act \<Rightarrow> Core \<Rightarrow> Core" where
  "pump_effect rt s a c =
     (case a of
        A_Notice m \<Rightarrow> Send (sub_sink s) m c
      | A_Sent m ok \<Rightarrow> if ok then Send (sub_sink s) m c else c
      | A_Resync \<Rightarrow> snapshotInto (rt_sessions rt 0) (rt_now rt 0) (sub_sink s) (sub_BoundSession s) c
      | _ \<Rightarrow> c)"

inductive daemon_step :: "Janitor \<Rightarrow> Core \<Rightarrow> label \<Rightarrow> Core \<Rightarrow> bool" for j :: Janitor where
  emit: "rt_ok rt \<Longrightarrow> daemon_step j c (L_Emit sk m) (start_emit rt sk m c)"
| message: "rt_ok rt \<Longrightarrow> \<not> is_emit msg \<Longrightarrow> daemon_step j c (L_Message sk msg) (Handle rt sk msg c)"
| closed: "rt_ok rt \<Longrightarrow> daemon_step j c (L_Closed sk) (Closed rt sk c)"
| task: "rt_ok rt \<Longrightarrow> t \<in> set (co_tasks c) \<Longrightarrow> \<not> is_focus t \<Longrightarrow>
    daemon_step j c (L_Task t) (run_task rt t (take_task t c))"
| focus: "rt_ok rt \<Longrightarrow> ApplyFocus sid to \<in> set (co_tasks c) \<Longrightarrow>
    daemon_step j c (L_Focus sid to (is_current sid to c))
      (run_task rt (ApplyFocus sid to) (take_task (ApplyFocus sid to) c))"
| pump: "rt_ok rt \<Longrightarrow> p < length (b_heap (co_bus c)) \<Longrightarrow> pump_step (sub_at c p) a s \<Longrightarrow>
    daemon_step j c (L_Pump p a)
      (pump_effect rt (sub_at c p) a (c\<lparr>co_bus := modify_sub p (\<lambda>_. s) (co_bus c)\<rparr>))"
| sweep: "rt_ok rt \<Longrightarrow> Sweep rt j c = (Inr n, d) \<Longrightarrow> daemon_step j c (L_Sweep n) d"
| tmux: "co_factory c = Some f \<Longrightarrow> daemon_step j c L_Tmux (c\<lparr>co_factory := Some f'\<rparr>)"

inductive_cases daemon_stepE: "daemon_step j c l d"

section \<open>The invariant of the whole daemon\<close>

lemma take_task_sel [simp]:
  "co_reg (take_task t c) = co_reg c" "co_bus (take_task t c) = co_bus c"
  "co_subs (take_task t c) = co_subs c" "co_factory (take_task t c) = co_factory c"
  "co_tasks (take_task t c) = remove1 t (co_tasks c)" "co_sent (take_task t c) = co_sent c"
  "co_focus (take_task t c) = co_focus c"
  by (simp_all add: take_task_def)

lemma core_inv_take_task: "core_inv c \<Longrightarrow> core_inv (take_task t c)"
  by (rule core_inv_frame) (auto simp: core_invD dest: notin_set_remove1 set_remove1_subset [THEN subsetD])

lemma core_inv_start_emit: "core_inv c \<Longrightarrow> core_inv (start_emit rt sk m c)"
  by (auto simp: start_emit_def Let_def case_prod_beta core_inv_emit_head intro!: core_inv_spawn)

lemma pump_step_sel:
  "pump_step s a t \<Longrightarrow> sub_sink t = sub_sink s \<and> sub_done t = sub_done s \<and>
     sub_Mode t = sub_Mode s \<and> sub_BoundSession t = sub_BoundSession s"
  by (induction rule: pump_step.induct) auto

lemma pump_effect_sel [simp]:
  "co_reg (pump_effect rt s a c) = co_reg c" "co_bus (pump_effect rt s a c) = co_bus c"
  "co_subs (pump_effect rt s a c) = co_subs c" "co_tasks (pump_effect rt s a c) = co_tasks c"
  "co_focus (pump_effect rt s a c) = co_focus c"
  by (auto simp: pump_effect_def snapshotInto_eq split: pump_act.splits)

lemma bus_inv_pump:
  assumes "bus_inv b" "p < length (b_heap b)" "pump_step (b_heap b ! p) a s"
  shows "bus_inv (modify_sub p (\<lambda>_. s) b)"
proof (rule bus_inv_nthI)
  have b: "distinct (b_subs b)" "\<And>q. q \<in> bus_live b \<Longrightarrow> q < length (b_heap b) \<and> \<not> sub_done (b_heap b ! q)"
    using assms(1) by (simp_all add: bus_inv_def)
  have s: "sub_inv s" "sub_done s = sub_done (b_heap b ! p)"
    using assms sub_inv_pump sub_inv_nth pump_step_sel by blast+
  show "distinct (b_subs (modify_sub p (\<lambda>_. s) b))" using b by simp
  fix q
  show "q \<in> bus_live (modify_sub p (\<lambda>_. s) b) \<Longrightarrow> q < length (b_heap (modify_sub p (\<lambda>_. s) b))"
    using b by simp
  show "q \<in> bus_live (modify_sub p (\<lambda>_. s) b) \<Longrightarrow> \<not> sub_done (b_heap (modify_sub p (\<lambda>_. s) b) ! q)"
    using b(2) s(2) by auto
  show "q < length (b_heap (modify_sub p (\<lambda>_. s) b)) \<Longrightarrow> sub_inv (b_heap (modify_sub p (\<lambda>_. s) b) ! q)"
    using s(1) sub_inv_nth [OF assms(1)] by simp
qed

lemma core_inv_pump:
  assumes "core_inv c" "p < length (b_heap (co_bus c))" "pump_step (sub_at c p) a s"
  shows "core_inv (pump_effect rt (sub_at c p) a (c\<lparr>co_bus := modify_sub p (\<lambda>_. s) (co_bus c)\<rparr>))"
  using assms pump_step_sel [OF assms(3)]
  by (intro core_inv_frame [OF assms(1)]) (auto simp: core_invD bus_inv_pump sub_at_def)

lemma core_inv_tmux: "core_inv c \<Longrightarrow> core_inv (c\<lparr>co_factory := f\<rparr>)"
  by (simp add: core_inv_def)

lemma core_inv_step: "core_inv c \<Longrightarrow> daemon_step j c l d \<Longrightarrow> core_inv d"
  by (elim daemon_stepE)
     (use core_inv_Sweep in \<open>auto simp: core_inv_start_emit core_inv_Handle core_inv_Closed core_inv_run_task
        core_inv_take_task core_inv_pump core_inv_tmux\<close>, metis core_inv_Sweep snd_conv)

interpretation daemon: invariant_system "\<lambda>c. \<exists>v f. c = NewCore v f" "daemon_step j" core_inv
  by unfold_locales (auto intro: core_inv_step)

section \<open>Last state wins\<close>

text \<open>
  \<open>pending sid st\<close>: some task will still apply the focus for the transition of session
  \<open>sid\<close> to \<open>st\<close>. \<open>last_focus ls sid\<close>: the state for which the focus of \<open>sid\<close> was last
  applied, that is, by the last \<open>ApplyFocus\<close> that found its transition current.
\<close>

definition carries :: "string \<Rightarrow> State \<Rightarrow> task \<Rightarrow> bool" where
  "carries sid st t =
     (case t of
        EmitTail m upd \<Rightarrow> em_SessionID m = sid \<and> u_Changed upd \<and> u_To upd = st
      | AfterEmit m upd \<Rightarrow> em_SessionID m = sid \<and> u_Changed upd \<and> u_To upd = st
      | ApplyFocus sid' to \<Rightarrow> sid' = sid \<and> to = st
      | FocusReq p \<Rightarrow> False)"

definition pending :: "string \<Rightarrow> State \<Rightarrow> Core \<Rightarrow> bool" where
  "pending sid st c \<longleftrightarrow> (\<exists>t \<in> set (co_tasks c). carries sid st t)"

definition focus_now :: "string \<Rightarrow> label \<Rightarrow> State option \<Rightarrow> State option" where
  "focus_now sid l acc =
     (case l of L_Focus sid' to fresh \<Rightarrow> if sid' = sid \<and> fresh then Some to else acc | _ \<Rightarrow> acc)"

definition last_focus :: "label list \<Rightarrow> string \<Rightarrow> State option" where
  "last_focus ls sid = fold (focus_now sid) ls None"

definition settled :: "label list \<Rightarrow> Core \<Rightarrow> bool" where
  "settled ls c \<longleftrightarrow> (\<forall>sid s. Get (co_reg c) sid = Some s \<longrightarrow> s_State s \<noteq> StateUnknown \<longrightarrow>
     pending sid (s_State s) c \<or> last_focus ls sid = Some (s_State s))"

lemma last_focus_snoc [simp]: "last_focus (ls @ [l]) sid = focus_now sid l (last_focus ls sid)"
  by (simp add: last_focus_def)

lemma focus_now_other [simp]:
  "focus_now sid (L_Emit sk m) acc = acc" "focus_now sid (L_Message sk msg) acc = acc"
  "focus_now sid (L_Closed sk) acc = acc" "focus_now sid (L_Task t) acc = acc"
  "focus_now sid (L_Pump p a) acc = acc" "focus_now sid (L_Sweep n) acc = acc"
  "focus_now sid L_Tmux acc = acc"
  by (simp_all add: focus_now_def)

lemma carries_simps [simp]:
  "carries sid st (EmitTail m upd) \<longleftrightarrow> em_SessionID m = sid \<and> u_Changed upd \<and> u_To upd = st"
  "carries sid st (AfterEmit m upd) \<longleftrightarrow> em_SessionID m = sid \<and> u_Changed upd \<and> u_To upd = st"
  "carries sid st (ApplyFocus sid' to) \<longleftrightarrow> sid' = sid \<and> to = st"
  "\<not> carries sid st (FocusReq p)"
  by (simp_all add: carries_def)

lemma settledI:
  assumes "settled ls c"
    and "\<And>sid s. Get (co_reg d) sid = Some s \<Longrightarrow> s_State s \<noteq> StateUnknown \<Longrightarrow>
      pending sid (s_State s) d \<or>
      (\<exists>s0. Get (co_reg c) sid = Some s0 \<and> s_State s0 = s_State s \<and>
        (pending sid (s_State s) c \<longrightarrow> pending sid (s_State s) d \<or> focus_now sid l (last_focus ls sid) = Some (s_State s)) \<and>
        (last_focus ls sid = Some (s_State s) \<longrightarrow> focus_now sid l (last_focus ls sid) = Some (s_State s)))"
  shows "settled (ls @ [l]) d"
  using assms unfolding settled_def last_focus_snoc by metis

lemma settled_same_registry:
  assumes "settled ls c" and "co_reg d = co_reg c" and "set (co_tasks c) \<subseteq> set (co_tasks d)"
    and "\<And>sid acc. focus_now sid l acc = acc"
  shows "settled (ls @ [l]) d"
  using assms(2-) by (intro settledI [OF assms(1)]) (auto simp: pending_def)

lemma start_emit_sel:
  "co_reg (start_emit rt sk m c) = snd (Apply m (rt_now rt 0) (rt_now rt 1) (co_reg c))"
  "co_tasks (start_emit rt sk m c) = co_tasks c @
     (if known_event (em_Event m)
      then [EmitTail m (fst (Apply m (rt_now rt 0) (rt_now rt 1) (co_reg c)))] else [])"
  by (simp_all add: start_emit_def Let_def case_prod_beta)

lemma settled_emit:
  assumes "settled ls c"
  shows "settled (ls @ [L_Emit sk m]) (start_emit rt sk m c)"
proof (rule settledI [OF assms])
  let ?A = "Apply m (rt_now rt 0) (rt_now rt 1) (co_reg c)" and ?d = "start_emit rt sk m c"
  fix sid s
  assume s: "Get (co_reg ?d) sid = Some s" "s_State s \<noteq> StateUnknown"
  have keep: "pending sid st c \<Longrightarrow> pending sid st ?d" for st
    by (auto simp: pending_def start_emit_sel)
  show "pending sid (s_State s) ?d \<or>
      (\<exists>s0. Get (co_reg c) sid = Some s0 \<and> s_State s0 = s_State s \<and>
        (pending sid (s_State s) c \<longrightarrow> pending sid (s_State s) ?d \<or>
           focus_now sid (L_Emit sk m) (last_focus ls sid) = Some (s_State s)) \<and>
        (last_focus ls sid = Some (s_State s) \<longrightarrow>
           focus_now sid (L_Emit sk m) (last_focus ls sid) = Some (s_State s)))"
  proof (cases "known_event (em_Event m) \<and> sid = em_SessionID m")
    case False
    with s(1) have "Get (co_reg c) sid = Some s"
      by (auto simp: Get_def start_emit_sel map_of_Apply)
    with keep show ?thesis by auto
  next
    case True
    then have valid: "u_Valid (fst ?A)" by simp
    have to: "u_To (fst ?A) = s_State s"
      using Apply_result(1,2) [OF valid] s(1) True by (auto simp: Get_def start_emit_sel)
    show ?thesis
    proof (cases "u_Changed (fst ?A)")
      case True
      with to \<open>known_event (em_Event m) \<and> sid = em_SessionID m\<close> show ?thesis
        by (auto simp: pending_def start_emit_sel)
    next
      case False
      then have "s_State (entry sid (rt_now rt 0) (co_reg c)) = s_State s"
        using Apply_result(3,4) [OF valid] to True by simp
      with s(2) obtain s0 where "Get (co_reg c) sid = Some s0" "s_State s0 = s_State s"
        by (auto simp: entry_def Get_def split: option.splits)
      with keep show ?thesis by auto
    qed
  qed
qed

lemma settled_task:
  assumes "settled ls c" "t \<in> set (co_tasks c)" "\<not> is_focus t"
  shows "settled (ls @ [L_Task t]) (run_task rt t (take_task t c))"
proof (rule settledI [OF assms(1)])
  let ?d = "run_task rt t (take_task t c)"
  have reg: "co_reg ?d = co_reg c"
    by (cases t) (auto simp: run_task_def Let_def)
  have keep: "pending sid st ?d" if "pending sid st c" for sid st
  proof -
    from that obtain u where u: "u \<in> set (co_tasks c)" "carries sid st u" by (auto simp: pending_def)
    show ?thesis
    proof (cases "u = t")
      case False
      with u have "u \<in> set (remove1 t (co_tasks c))" by simp
      with u(2) show ?thesis
        by (cases t) (auto simp: pending_def run_task_def Let_def)
    next
      case True
      with u(2) assms(3) show ?thesis
        by (cases t) (auto simp: pending_def run_task_def Let_def is_focus_def)
    qed
  qed
  fix sid s
  assume "Get (co_reg ?d) sid = Some s"
  with reg keep show "pending sid (s_State s) ?d \<or>
      (\<exists>s0. Get (co_reg c) sid = Some s0 \<and> s_State s0 = s_State s \<and>
        (pending sid (s_State s) c \<longrightarrow> pending sid (s_State s) ?d \<or>
           focus_now sid (L_Task t) (last_focus ls sid) = Some (s_State s)) \<and>
        (last_focus ls sid = Some (s_State s) \<longrightarrow>
           focus_now sid (L_Task t) (last_focus ls sid) = Some (s_State s)))"
    by auto
qed

lemma settled_focus:
  assumes "settled ls c"
  shows "settled (ls @ [L_Focus sid to (is_current sid to c)])
    (run_task rt (ApplyFocus sid to) (take_task (ApplyFocus sid to) c))"
proof (rule settledI [OF assms])
  let ?t = "ApplyFocus sid to"
  let ?d = "run_task rt ?t (take_task ?t c)"
  have reg: "co_reg ?d = co_reg c" and tasks: "co_tasks ?d = remove1 ?t (co_tasks c)"
    by (simp_all add: run_task_def)
  fix sid' s
  assume s: "Get (co_reg ?d) sid' = Some s"
  have keep: "pending sid' (s_State s) ?d \<or> sid' = sid \<and> to = s_State s" if p: "pending sid' (s_State s) c"
  proof -
    from p obtain u where u: "u \<in> set (co_tasks c)" "carries sid' (s_State s) u"
      by (auto simp: pending_def)
    then show ?thesis
      by (cases "u = ?t") (auto simp: pending_def tasks)
  qed
  have cur: "is_current sid to c" if "sid' = sid" "to = s_State s"
    using s that reg by (simp add: is_current_def)
  have stale: "\<not> is_current sid to c" if "sid' = sid" "to \<noteq> s_State s"
    using s that reg by (simp add: is_current_def)
  from s reg keep cur stale show "pending sid' (s_State s) ?d \<or>
      (\<exists>s0. Get (co_reg c) sid' = Some s0 \<and> s_State s0 = s_State s \<and>
        (pending sid' (s_State s) c \<longrightarrow> pending sid' (s_State s) ?d \<or>
           focus_now sid' (L_Focus sid to (is_current sid to c)) (last_focus ls sid') = Some (s_State s)) \<and>
        (last_focus ls sid' = Some (s_State s) \<longrightarrow>
           focus_now sid' (L_Focus sid to (is_current sid to c)) (last_focus ls sid') = Some (s_State s)))"
    by (auto simp: focus_now_def)
qed

lemma settled_sweep:
  assumes "settled ls c" "core_inv c" "rt_ok rt" "Sweep rt j c = (Inr n, d)"
  shows "settled (ls @ [L_Sweep n]) d"
proof (rule settledI [OF assms(1)])
  from assms(4) have reg: "co_reg d = snd (sweep_registry rt j c)" and tasks: "co_tasks d = co_tasks c"
    using Sweep_sel by (metis snd_conv)+
  fix sid s
  assume s: "Get (co_reg d) sid = Some s" "s_State s \<noteq> StateUnknown"
  have "\<exists>s0. Get (co_reg c) sid = Some s0 \<and> s_State s0 = s_State s"
  proof (cases "0 < ja_idleLimit j")
    case True
    with s reg assms show ?thesis
      by (auto simp: Get_def map_of_GC core_invD s_State_reap split: if_splits)
  next
    case False
    with s reg show ?thesis by (simp add: GC_disabled)
  qed
  with tasks show "pending sid (s_State s) d \<or>
      (\<exists>s0. Get (co_reg c) sid = Some s0 \<and> s_State s0 = s_State s \<and>
        (pending sid (s_State s) c \<longrightarrow> pending sid (s_State s) d \<or>
           focus_now sid (L_Sweep n) (last_focus ls sid) = Some (s_State s)) \<and>
        (last_focus ls sid = Some (s_State s) \<longrightarrow>
           focus_now sid (L_Sweep n) (last_focus ls sid) = Some (s_State s)))"
    by (auto simp: pending_def)
qed

lemma handler_registry_tasks:
  assumes "\<not> is_emit msg"
  shows "co_reg (Handle rt sk msg c) = co_reg c \<and> set (co_tasks c) \<subseteq> set (co_tasks (Handle rt sk msg c))"
  using assms
  by (cases msg)
     (auto simp: Handle_def is_emit_def handleSubscribe_def handleUnsubscribe_def handleStatus_def
        handleFocusRequest_def Let_def snapshotInto_eq case_prod_beta split: option.splits)

lemma settled_step:
  assumes "core_inv c" "settled ls c" "daemon_step j c l d"
  shows "settled (ls @ [l]) d"
  using assms(3)
proof (cases rule: daemon_step.cases)
  case (emit rt sk m)
  then show ?thesis using settled_emit [OF assms(2)] by simp
next
  case (message rt msg sk)
  then show ?thesis using handler_registry_tasks by (intro settled_same_registry [OF assms(2)]) simp_all
next
  case (closed rt sk)
  then show ?thesis by (intro settled_same_registry [OF assms(2)]) (simp_all add: Closed_def)
next
  case (task rt t)
  then show ?thesis using settled_task [OF assms(2)] by simp
next
  case (focus rt sid to)
  then show ?thesis using settled_focus [OF assms(2)] by simp
next
  case (pump rt p a s)
  then show ?thesis by (intro settled_same_registry [OF assms(2)]) simp_all
next
  case (sweep rt n)
  then show ?thesis using settled_sweep [OF assms(2,1)] by simp
next
  case (tmux f f')
  then show ?thesis by (intro settled_same_registry [OF assms(2)]) simp_all
qed

lemma settled_run: "run (daemon_step j) c ls d \<Longrightarrow> core_inv c \<Longrightarrow> settled [] c \<Longrightarrow> settled ls d"
proof (induction rule: run.induct)
  case (run_Nil s)
  then show ?case by simp
next
  case (run_snoc s ls t l u)
  then show ?case by (metis daemon.run_keeps settled_step)
qed

lemma settled_New [simp]: "settled [] (NewCore v f)"
  by (simp add: settled_def NewCore_def Get_def New_registry_def)

end
