(* ===== verification/Samples.thy ===== *)
theory Samples
  imports Daemon
begin

text \<open>
  Concrete values on which the properties with hypotheses are instantiated: emits, a runtime
  that visits maps in insertion order, a tmux server with two panes in one window, and
  the runs the witnesses evaluate.
\<close>

definition sample_emit :: "string \<Rightarrow> string \<Rightarrow> int \<Rightarrow> string \<Rightarrow> string \<Rightarrow> EmitMessage" where
  "sample_emit event sid seq pane socket =
     \<lparr>e_V = 1, e_Type = ''emit'', em_Event = event, em_SessionID = sid, em_Seq = seq, em_TS = 0,
      em_TmuxPane = pane, em_TmuxSession = [], em_TmuxSocket = socket, em_Meta = None\<rparr>"

definition working_emit :: EmitMessage where
  "working_emit = sample_emit EventAgentWorking ''s1'' 10 ''%1'' ''/t''"

definition attention_emit :: EmitMessage where
  "attention_emit = sample_emit EventAgentNeedsAttention ''s1'' 20 ''%1'' ''/t''"

definition sample_rt :: Runtime where
  "sample_rt = \<lparr>rt_now = (\<lambda>n. int n), rt_sessions = (\<lambda>n xs. xs), rt_table = (\<lambda>n xs. xs),
     rt_ptrs = (\<lambda>xs. xs), rt_ids = (\<lambda>xs. xs), rt_Quote = (\<lambda>s. CHR 0x22 # s @ [CHR 0x22])\<rparr>"

definition late_rt :: Runtime where
  "late_rt = sample_rt\<lparr>rt_now := (\<lambda>n. 1000 * minute)\<rparr>"

lemma sample_rt_ok [simp]: "rt_ok sample_rt" "rt_ok late_rt"
  by (simp_all add: rt_ok_def sample_rt_def late_rt_def)

definition sample_subscribe :: "string \<Rightarrow> string \<Rightarrow> string \<Rightarrow> SubscribeMessage" where
  "sample_subscribe mode sid pane =
     \<lparr>e_V = 1, e_Type = ''subscribe'', sb_Mode = mode, sb_SessionID = sid, sb_ActivityID = ''snake'',
      sb_ActivityPane = pane, sb_TmuxSocket = ''/t'', sb_Title = []\<rparr>"

definition sample_panes :: "PaneInfo list" where
  "sample_panes =
     [\<lparr>p_ID = ''%1'', p_SessionID = ''$1'', p_SessionName = ''main'', p_WindowID = ''@1'',
       p_ActiveInWindow = True, p_WindowActive = True\<rparr>,
      \<lparr>p_ID = ''%2'', p_SessionID = ''$1'', p_SessionName = ''main'', p_WindowID = ''@1'',
       p_ActiveInWindow = False, p_WindowActive = True\<rparr>]"

definition sample_ctrl :: "PaneInfo list \<Rightarrow> Controller" where
  "sample_ctrl panes = \<lparr>c_Available = True, c_ListPanes = Inr panes,
     c_FocusPane = (\<lambda>p. if p \<in> p_ID ` set panes then None else Some ''not found''),
     c_PaneExists = (\<lambda>p. p \<in> p_ID ` set panes)\<rparr>"

definition sample_factory :: TmuxFactory where
  "sample_factory = (\<lambda>socket. Some (sample_ctrl sample_panes))"

definition empty_factory :: TmuxFactory where
  "empty_factory = (\<lambda>socket. Some (sample_ctrl []))"

definition sample_opts :: SubOpts where
  "sample_opts = \<lparr>so_Mode = ''any'', so_BoundSession = [], so_ActivityPane = ''%2'',
     so_ActivityID = ''snake'', so_Title = [], so_Sink = 7, so_OnResync = True\<rparr>"

text \<open>A daemon without tmux that has one session, working, and one subscriber on connection 7.\<close>

definition core0 :: Core where "core0 = NewCore ''v1'' None"

definition core1 :: Core where
  "core1 = handleSubscribe sample_rt 7 (sample_subscribe ''any'' [] ''%2'') core0"

definition core2 :: Core where
  "core2 = handleEmit sample_rt 8 working_emit core1"

lemma core_samples_inv [simp]: "core_inv core0" "core_inv core1" "core_inv core2"
  by (simp_all add: core0_def core1_def core2_def core_inv_handlers)

end
