(* ===== verification/RegistryProps.thy ===== *)
theory RegistryProps
  imports Samples
begin

text \<open>Properties of the session registry, proved from the facts of \<open>Convergence\<close>.\<close>

text \<open>
  C3: \<open>Apply\<close> implements a last-writer-wins register per session: a recognised event joins
  the clock (sequence number, claim) of its session with the event's stamp, a tie being
  won by a working declaration over a held request for attention; every other session keeps
  its clock, and an unrecognised event changes none.
\<close>
theorem apply_joins_clock:
  assumes "reg_inv r"
  shows "abs_registry (snd (Apply m now0 now1 r)) =
    (if known_event (em_Event m)
     then (abs_registry r)(em_SessionID m := max (abs_registry r (em_SessionID m)) (emit_stamp m))
     else abs_registry r)"
  using assms by (auto simp: abs_Apply fun_eq_iff)

theorem apply_joins_clock_witness:
  "abs_registry (snd (Apply attention_emit 1 2 (snd (Apply working_emit 0 0 [])))) ''s1'' =
     max (10, DeclaredWorking) (20, HeldAttention)"
proof -
  have e: "abs_registry [] = (\<lambda>sid. (0, Undeclared))"
    by (simp add: abs_registry_def Get_def fun_eq_iff)
  have r0: "reg_inv []" by (simp add: reg_inv_def)
  have r1: "reg_inv (snd (Apply working_emit 0 0 []))" using r0 by (rule reg_inv_Apply)
  show ?thesis
    unfolding apply_joins_clock [OF r1] apply_joins_clock [OF r0] e
    by (simp add: working_emit_def attention_emit_def sample_emit_def emit_stamp_def StateForEvent_def max_def)
qed

lemma image_emits:
  assumes "d_emit ` set ds = d_emit ` set ds'"
  shows "(\<lambda>d. g (d_emit d)) ` {d \<in> set ds. P (d_emit d)} = (\<lambda>d. g (d_emit d)) ` {d \<in> set ds'. P (d_emit d)}"
proof -
  have img: "(\<lambda>d. g (d_emit d)) ` {d \<in> set xs. P (d_emit d)} = g ` {m \<in> d_emit ` set xs. P m}" for xs
    by auto
  show ?thesis by (simp only: img assms)
qed

text \<open>
  C4: The outcome of a set of emits does not depend on the order in which they are
  delivered, on how often each is delivered, or on the times of delivery: every session ends
  with the same sequence number and the same state.
\<close>
theorem delivery_order_irrelevant:
  assumes "reg_inv r" and "d_emit ` set ds = d_emit ` set ds'"
  shows "map_option (\<lambda>s. (s_LastSeq s, s_State s)) (Get (deliver_all ds r) sid) =
         map_option (\<lambda>s. (s_LastSeq s, s_State s)) (Get (deliver_all ds' r) sid)"
proof (rule abs_registry_state)
  show "reg_inv (deliver_all ds r)" "reg_inv (deliver_all ds' r)"
    using assms(1) by (simp_all add: registry.inv_fold)
  show "abs_registry (deliver_all ds r) sid = abs_registry (deliver_all ds' r) sid"
    using assms(1) image_emits [OF assms(2), of "\<lambda>m. (em_SessionID m, emit_stamp m)"]
    by (rule registry.convergence)
  show "Get (deliver_all ds r) sid = None \<longleftrightarrow> Get (deliver_all ds' r) sid = None"
    using image_emits [OF assms(2), of em_SessionID "\<lambda>m. known_event (em_Event m)"]
    by (simp only: Get_None_iff keys_deliver_all)
qed

definition sample_ds :: "delivery list" where
  "sample_ds = [\<lparr>d_emit = working_emit, d_now0 = 0, d_now1 = 1\<rparr>,
     \<lparr>d_emit = attention_emit, d_now0 = 2, d_now1 = 3\<rparr>]"

definition sample_ds' :: "delivery list" where
  "sample_ds' = [\<lparr>d_emit = attention_emit, d_now0 = 5, d_now1 = 5\<rparr>,
     \<lparr>d_emit = working_emit, d_now0 = 6, d_now1 = 7\<rparr>, \<lparr>d_emit = attention_emit, d_now0 = 8, d_now1 = 9\<rparr>]"

theorem delivery_order_irrelevant_witness:
  "map_option (\<lambda>s. (s_LastSeq s, s_State s)) (Get (deliver_all sample_ds []) ''s1'') =
     map_option (\<lambda>s. (s_LastSeq s, s_State s)) (Get (deliver_all sample_ds' []) ''s1'') \<and>
   map_option (\<lambda>s. (s_LastSeq s, s_State s)) (Get (deliver_all sample_ds []) ''s1'') =
     Some (20, StateNeedsAttention)"
proof
  have "reg_inv []" by (simp add: reg_inv_def)
  moreover have "d_emit ` set sample_ds = d_emit ` set sample_ds'"
    by (auto simp: sample_ds_def sample_ds'_def)
  ultimately show "map_option (\<lambda>s. (s_LastSeq s, s_State s)) (Get (deliver_all sample_ds []) ''s1'') =
     map_option (\<lambda>s. (s_LastSeq s, s_State s)) (Get (deliver_all sample_ds' []) ''s1'')"
    by (rule delivery_order_irrelevant)
  show "map_option (\<lambda>s. (s_LastSeq s, s_State s)) (Get (deliver_all sample_ds []) ''s1'') =
     Some (20, StateNeedsAttention)"
    by code_simp
qed

text \<open>
  C35: The update \<open>Apply\<close> returns is truthful: for a recognised event it carries the record
  the registry now holds for the session, its \<open>From\<close> is the state before (unknown for a new
  session), its \<open>To\<close> the state now, \<open>Changed\<close> says whether they differ; and no other
  session's record is touched.
\<close>
theorem apply_reports_truthfully:
  assumes "known_event (em_Event m)"
  shows "case Apply m now0 now1 r of (upd, r') \<Rightarrow>
    u_Valid upd \<and> Get r' (em_SessionID m) = Some (u_Session upd) \<and>
    u_From upd = (case Get r (em_SessionID m) of None \<Rightarrow> StateUnknown | Some s \<Rightarrow> s_State s) \<and>
    u_To upd = s_State (u_Session upd) \<and>
    (u_Changed upd \<longleftrightarrow> u_From upd \<noteq> u_To upd) \<and>
    (\<forall>sid. sid \<noteq> em_SessionID m \<longrightarrow> Get r' sid = Get r sid)"
proof -
  have valid: "u_Valid (fst (Apply m now0 now1 r))" using assms by simp
  have "s_State (entry (em_SessionID m) now0 r) =
      (case Get r (em_SessionID m) of None \<Rightarrow> StateUnknown | Some s \<Rightarrow> s_State s)"
    by (simp add: entry_def Get_def split: option.splits)
  with Apply_result [OF valid] assms show ?thesis
    by (simp add: case_prod_beta Get_def map_of_Apply)
qed

theorem apply_reports_truthfully_witness:
  "case Apply working_emit 0 1 [] of (upd, r') \<Rightarrow> u_From upd = StateUnknown \<and> u_To upd = StateWorking"
proof -
  have "known_event (em_Event working_emit)"
    by (simp add: working_emit_def sample_emit_def StateForEvent_def)
  from apply_reports_truthfully [OF this, of "[]" 0 1]
  have "u_From (fst (Apply working_emit 0 1 [])) = StateUnknown"
    by (simp add: case_prod_beta Get_def)
  moreover have "u_To (fst (Apply working_emit 0 1 [])) = StateWorking" by code_simp
  ultimately show ?thesis by (simp add: case_prod_beta)
qed

text \<open>
  Delivering an emit twice in a row is the same as delivering it once, and the second
  delivery reports no change.
\<close>
theorem duplicate_delivery_absorbed:
  "snd (Apply m t2 t3 (snd (Apply m t0 t1 r))) = snd (Apply m t0 t1 r) \<and>
   \<not> u_Changed (fst (Apply m t2 t3 (snd (Apply m t0 t1 r))))"
proof (cases "known_event (em_Event m)")
  case False
  then show ?thesis using Apply_unknown by simp
next
  case True
  let ?r = "snd (Apply m t0 t1 r)"
  let ?s = "if newer m (entry (em_SessionID m) t0 r)
    then fold_emit m (declared (em_Event m)) t1 (entry (em_SessionID m) t0 r)
    else entry (em_SessionID m) t0 r"
  have s: "map_of ?r (em_SessionID m) = Some ?s"
    using True by (simp add: map_of_Apply Let_def)
  have "\<not> newer m ?s" by (cases "em_Event m" rule: StateForEvent_cases) (auto simp: newer_def)
  moreover have "entry (em_SessionID m) t2 ?r = ?s" using s by (simp add: entry_def)
  ultimately show ?thesis
    using s by (simp add: Apply_known [OF True, of t2 t3 ?r] Let_def update_triv del: if_split)
qed

text \<open>
  The reaping sweep, whatever the order in which it visits the map, changes exactly the
  sessions that are not unknown, whose last event is older than the threshold, and whose
  registered pane the check says is gone; it sets them to unknown, changes nothing else,
  deletes nothing, and counts them.
\<close>
theorem reaping_is_pointwise:
  assumes "reg_inv r" and "range_order visit" and "0 < idle"
  shows "GC idle pe now visit r =
    (length (filter (reapable idle pe now) (map snd r)),
     map (\<lambda>(k, s). (k, if reapable idle pe now s then s\<lparr>s_State := StateUnknown\<rparr> else s)) r)"
  using GC_spec [OF assms] by (simp add: reap_def)

theorem reaping_is_pointwise_witness:
  "fst (GC (5 * minute) (Some (\<lambda>p s. False)) (10 * minute) rev (deliver_all sample_ds [])) = 1"
proof -
  have "reg_inv (deliver_all sample_ds [])"
    by (intro registry.inv_fold) (simp add: reg_inv_def)
  moreover have "range_order (rev :: string visit)" by simp
  moreover have "0 < 5 * minute" by (simp add: minute_def second_def millisecond_def nanosecond_def)
  ultimately have "GC (5 * minute) (Some (\<lambda>p s. False)) (10 * minute) rev (deliver_all sample_ds []) =
    (length (filter (reapable (5 * minute) (Some (\<lambda>p s. False)) (10 * minute))
       (map snd (deliver_all sample_ds []))),
     map (\<lambda>(k, s). (k, if reapable (5 * minute) (Some (\<lambda>p s. False)) (10 * minute) s
       then s\<lparr>s_State := StateUnknown\<rparr> else s)) (deliver_all sample_ds []))"
    by (rule reaping_is_pointwise)
  moreover have "length (filter (\<lambda>s. s_State s \<noteq> StateUnknown \<and>
      time_Sub (10 * minute) (s_LastEventAt s) > 5 * minute \<and> s_TmuxPane s \<noteq> [])
      (map snd (deliver_all sample_ds []))) = 1"
    by code_simp
  ultimately show ?thesis by (simp add: reapable_def [abs_def])
qed

text \<open>
  \<open>MostRecent\<close> finds nothing exactly when the registry is empty; otherwise it returns
  a registered session and no registered session has a later last event, whatever the
  order in which the map is visited.
\<close>
theorem most_recent_is_latest:
  assumes "reg_inv r" and "range_order visit"
  shows "(MostRecent visit r = None \<longleftrightarrow> r = []) \<and>
    (\<forall>s. MostRecent visit r = Some s \<longrightarrow> Get r (s_ID s) = Some s \<and>
       (\<forall>k t. Get r k = Some t \<longrightarrow> s_LastEventAt t \<le> s_LastEventAt s))"
  using MostRecent_spec [OF assms] assms(2)
  by (cases "MostRecent visit r") (auto simp: Get_def)

theorem most_recent_is_latest_witness:
  "MostRecent rev (deliver_all sample_ds []) \<noteq> None"
proof -
  have "reg_inv (deliver_all sample_ds [])"
    by (intro registry.inv_fold) (simp add: reg_inv_def)
  moreover have "range_order (rev :: Session visit)" by simp
  ultimately have "MostRecent rev (deliver_all sample_ds []) = None \<longleftrightarrow> deliver_all sample_ds [] = []"
    by (rule most_recent_is_latest [THEN conjunct1])
  moreover have "deliver_all sample_ds [] \<noteq> []" by code_simp
  ultimately show ?thesis by simp
qed

end
