(* ===== verification/BusProps.thy ===== *)
theory BusProps
  imports Samples
begin

text \<open>Properties of the bus and of the tmux controller.\<close>

section \<open>The bus\<close>



text \<open>
  C25: A subscription delivers in order and exactly once: at any point of any run, the messages
  the pump has handed to the sink, then the one it holds, then the buffer, are exactly the
  published messages the buffer accepted, in the order of publication.
\<close>
theorem delivery_is_fifo_exactly_once:
  assumes "sub_run (new_sub opt) accepted_msgs sent_msgs s"
  shows "sent_msgs @ in_hand s @ sub_ch s = accepted_msgs"
  using sub_run_accounting [OF assms] by (simp add: in_hand_def new_sub_def)

theorem delivery_is_fifo_exactly_once_witness:
  "sub_ch (offer ''s1'' PongMsg (new_sub sample_opts)) = [PongMsg]"
proof -
  have "sub_run (new_sub sample_opts) ([] @ accepted (new_sub sample_opts) (S_Offer ''s1'' PongMsg))
      ([] @ sent (S_Offer ''s1'' PongMsg)) (offer ''s1'' PongMsg (new_sub sample_opts))"
    by (rule sub_run_step [OF sub_run_Nil sub_step.by_publish])
  from delivery_is_fifo_exactly_once [OF this] show ?thesis
    by (simp add: in_hand_def offer_def new_sub_def sample_opts_def matches_def)
qed

text \<open>
  C26: \<open>Publish\<close> reaches exactly the registered subscriptions that follow the session: each gets
  the message at the end of its buffer, or its overflow flag raised when the buffer is full;
  every other subscription and the set of registered ones are untouched; and the order in which
  the map is visited makes no difference.
\<close>
theorem publish_reaches_exactly_followers:
  assumes "bus_inv b" and "range_order v" and "range_order v'"
  shows "Publish v sid msg b = Publish v' sid msg b \<and> b_subs (Publish v sid msg b) = b_subs b \<and>
    (\<forall>p < length (b_heap b). b_heap (Publish v sid msg b) ! p =
      (let s = b_heap b ! p in
       if p \<in> set (b_subs b) \<and> matches s sid
       then (if length (sub_ch s) < 64 then s\<lparr>sub_ch := sub_ch s @ [msg]\<rparr> else s\<lparr>sub_overflow := True\<rparr>)
       else s))"
  using Publish_spec [OF assms(1,2)] Publish_spec [OF assms(1,3)]
  by (simp add: Let_def offer_def subBufferSize_def)

theorem publish_reaches_exactly_followers_witness:
  "Publish rev ''s1'' PongMsg (co_bus core1) = Publish (\<lambda>xs. xs) ''s1'' PongMsg (co_bus core1)"
proof -
  have "bus_inv (co_bus core1)" by (simp add: core_invD)
  then show ?thesis using publish_reaches_exactly_followers [of "co_bus core1" rev "\<lambda>xs. xs"] by simp
qed

text \<open>
  Once a subscription is bound to a session it stays bound to that session, and its mode
  never changes: no publication, rebinding, unsubscription or pump step retargets it.
\<close>
theorem binding_is_stable:
  assumes "run sub_step s acts t" and "sub_BoundSession s \<noteq> []"
  shows "sub_BoundSession t = sub_BoundSession s \<and> sub_Mode t = sub_Mode s"
proof -
  have step: "sub_BoundSession u = sub_BoundSession r \<and> sub_Mode u = sub_Mode r"
    if "sub_step r a u" "sub_BoundSession r \<noteq> []" for r a u
    using that by (cases rule: sub_step.cases) (auto simp: pump_step_sel bind_unbound_def)
  show ?thesis using assms by (induction rule: run.induct) (auto dest: step)
qed

theorem binding_is_stable_witness:
  "sub_BoundSession (bind_unbound ''s9'' (new_sub (sample_opts\<lparr>so_BoundSession := ''s1''\<rparr>))) = ''s1''"
proof -
  let ?s = "new_sub (sample_opts\<lparr>so_BoundSession := ''s1''\<rparr>)"
  have "run sub_step ?s [S_Rebind ''s9''] (bind_unbound ''s9'' ?s)"
    by (intro run_one sub_step.by_rebind)
  moreover have "sub_BoundSession ?s = ''s1''" by (simp add: new_sub_def)
  ultimately show ?thesis using binding_is_stable by fastforce
qed

text \<open>
  After a drop, the resync snapshot is sent before the backlog: a pump that finds the
  overflow flag up can drain its buffer by sending the notice, asking for the snapshot, and then
  sending every older buffered message, so the last thing the subscriber hears is the newest
  message of the stale backlog and not the snapshot, and no further notice is due.
\<close>
theorem resync_precedes_stale_backlog:
  assumes "sub_pump s = P_Select" and "sub_overflow s" and "sub_ch s \<noteq> []" and "sub_onResync s"
  shows "\<exists>acts t. run pump_step s acts t \<and> sub_ch t = [] \<and> \<not> sub_overflow t \<and> sub_pump t = P_Select \<and>
    sends acts = [A_Notice (DroppedMsg (sub_BoundSession s)), A_Resync] @
      map (\<lambda>m. A_Sent m True) (sub_ch s)"
proof -
  from assms(3) obtain m ms where "sub_ch s = m # ms" by (cases "sub_ch s") auto
  from pump_after_drop [OF assms(1,2) this assms(4)] show ?thesis by simp
qed

theorem resync_precedes_stale_backlog_witness:
  "\<exists>acts t. run pump_step ((new_sub sample_opts)\<lparr>sub_overflow := True, sub_ch := [PongMsg, PingMsg]\<rparr>) acts t \<and>
     sends acts = [A_Notice (DroppedMsg []), A_Resync, A_Sent PongMsg True, A_Sent PingMsg True]"
  using resync_precedes_stale_backlog
    [of "(new_sub sample_opts)\<lparr>sub_overflow := True, sub_ch := [PongMsg, PingMsg]\<rparr>"]
  by (auto simp: new_sub_def sample_opts_def)

section \<open>The tmux controller\<close>

text \<open>
  C33: \<open>ParsePanes\<close> reads back what tmux prints in the requested format: for any panes whose
  fields hold no tab and no newline, parsing the printed lines gives the panes, in order.
\<close>
theorem parse_panes_roundtrip:
  assumes "\<forall>p \<in> set ps. plain_pane p"
  shows "ParsePanes (concat (map (\<lambda>p. render_pane p @ [CHR 0x0A]) ps)) = ps"
  using assms by (rule ParsePanes_render)

theorem parse_panes_roundtrip_witness:
  "ParsePanes (concat (map (\<lambda>p. render_pane p @ [CHR 0x0A]) sample_panes)) = sample_panes"
proof -
  have "\<forall>p \<in> set sample_panes. plain_pane p" by (simp add: sample_panes_def plain_pane_def)
  then show ?thesis by (rule parse_panes_roundtrip)
qed


text \<open>A tmux stand-in that logs its commands and lists nothing.\<close>

definition log_exec :: "string list list exec" where
  "log_exec args w = (Inr [], w @ [args])"


end
