(* ===== verification/CoreProps.thy ===== *)
theory CoreProps
  imports Samples
begin

text \<open>Properties of the message handler, proved from the facts of \<open>CoreFacts\<close>.\<close>

section \<open>Window-topology binding\<close>

lemma latest_of_spec:
  "latest_of s ss \<in> insert s (set ss) \<and>
     (\<forall>t \<in> insert s (set ss). s_LastEventAt t \<le> s_LastEventAt (latest_of s ss))"
proof (induction ss arbitrary: s)
  case Nil
  then show ?case by (simp add: latest_of_def)
next
  case (Cons x ss)
  let ?b = "if time_After (s_LastEventAt x) (s_LastEventAt s) then x else s"
  have step: "latest_of s (x # ss) = latest_of ?b ss" by (simp add: latest_of_def)
  have "s_LastEventAt x \<le> s_LastEventAt ?b" "s_LastEventAt s \<le> s_LastEventAt ?b"
    by (auto simp: time_After_def)
  then show ?case unfolding step using Cons.IH [of ?b] by (fastforce split: if_splits)
qed

definition candidate :: "Core \<Rightarrow> string \<Rightarrow> PaneInfo list \<Rightarrow> Session \<Rightarrow> bool" where
  "candidate c window panes s \<longleftrightarrow> Get (co_reg c) (s_ID s) = Some s \<and> in_window window panes s"

lemma candidates:
  assumes "core_inv c" "range_order visit"
  shows "s \<in> set (filter (in_window window panes) (List_sessions visit (co_reg c))) \<longleftrightarrow>
    candidate c window panes s"
  using reg_inv_snd [OF core_invD(1) [OF assms(1)], of s] range_order_set [OF assms(2), of "map snd (co_reg c)"]
  by (auto simp: candidate_def List_sessions_def Get_def)


text \<open>The daemon of the samples with tmux, after one emit from pane \<open>%1\<close>.\<close>

definition core_tmux :: Core where
  "core_tmux = handleEmit sample_rt 8 working_emit (NewCore ''v1'' (Some sample_factory))"

lemma core_tmux_inv [simp]: "core_inv core_tmux"
  by (simp add: core_tmux_def core_inv_handleEmit)

lemma core_tmux_factory: "co_factory core_tmux = Some sample_factory"
  by (simp add: core_tmux_def handleEmit_eq NewCore_def)


text \<open>
  Binding looks at pane ids only and ignores which tmux server a session lives on: a
  session whose Claude pane is \<open>%1\<close> of one server is bound to an activity in a window of another
  server that happens to have a pane \<open>%1\<close>.
\<close>
definition other_server_core :: Core where
  "other_server_core = handleEmit sample_rt 8
     (sample_emit EventAgentWorking ''s1'' 10 ''%1'' ''/other'') (NewCore ''v1'' (Some sample_factory))"

theorem autobind_confuses_servers:
  "core_inv other_server_core \<and>
   map_option s_TmuxSocket (Get (co_reg other_server_core) ''s1'') = Some ''/other'' \<and>
   map_option (\<lambda>p. sub_BoundSession (sub_at (handleSubscribe sample_rt 7 (sample_subscribe ''auto'' [] ''%2'') other_server_core) p))
     (map_of (co_subs (handleSubscribe sample_rt 7 (sample_subscribe ''auto'' [] ''%2'') other_server_core)) 7) = Some ''s1'' \<and>
   sb_TmuxSocket (sample_subscribe ''auto'' [] ''%2'') = ''/t''"
proof (intro conjI)
  show "core_inv other_server_core" by (simp add: other_server_core_def core_inv_handleEmit)
  show "map_option s_TmuxSocket (Get (co_reg other_server_core) ''s1'') = Some ''/other''" by code_simp
  show "map_option (\<lambda>p. sub_BoundSession (sub_at (handleSubscribe sample_rt 7 (sample_subscribe ''auto'' [] ''%2'') other_server_core) p))
     (map_of (co_subs (handleSubscribe sample_rt 7 (sample_subscribe ''auto'' [] ''%2'') other_server_core)) 7) = Some ''s1''"
    by code_simp
  show "sb_TmuxSocket (sample_subscribe ''auto'' [] ''%2'') = ''/t''" by code_simp
qed

section \<open>Subscribing\<close>

definition mode_of :: "SubscribeMessage \<Rightarrow> string" where
  "mode_of m = (if sb_Mode m = [] then ''auto'' else sb_Mode m)"

definition valid_mode :: "SubscribeMessage \<Rightarrow> bool" where
  "valid_mode m \<longleftrightarrow> mode_of m \<in> {''auto'', ''any'', ''session''}"

definition binding_of :: "Runtime \<Rightarrow> SubscribeMessage \<Rightarrow> Core \<Rightarrow> string" where
  "binding_of rt m c =
     (if mode_of m = ''auto''
      then resolveAutoBind (rt_sessions rt 0) (sb_ActivityPane m) (sb_TmuxSocket m) c
      else sb_SessionID m)"

definition opts_of :: "Runtime \<Rightarrow> sink \<Rightarrow> SubscribeMessage \<Rightarrow> Core \<Rightarrow> SubOpts" where
  "opts_of rt sk m c = \<lparr>so_Mode = mode_of m, so_BoundSession = binding_of rt m c,
     so_ActivityPane = sb_ActivityPane m, so_ActivityID = sb_ActivityID m, so_Title = sb_Title m,
     so_Sink = sk, so_OnResync = True\<rparr>"

lemma handleSubscribe_valid:
  assumes "valid_mode m"
  shows "handleSubscribe rt sk m c =
    (let c1 = c\<lparr>co_bus := snd (Subscribe (opts_of rt sk m c) (co_bus c)),
         co_subs := AList.update sk (length (b_heap (co_bus c))) (co_subs c)\<rparr>
     in Send sk (snapshot_of (rt_sessions rt 1) (rt_now rt 0) (binding_of rt m c) (co_reg c))
          (Send sk (Ack True []) c1))"
  using assms
  by (auto simp: handleSubscribe_def valid_mode_def mode_of_def binding_of_def opts_of_def Let_def
      snapshotInto_eq Subscribe_def)





lemma fold_Unsubscribe_other:
  "q \<notin> set ps \<Longrightarrow> b_heap (fold (\<lambda>p. Unsubscribe (Some p)) ps b) ! q = b_heap b ! q"
  by (induction ps arbitrary: b) auto

text \<open>
  C24: When a connection closes, no live subscription writes to it any more, however many it
  had, its table entry is gone, and every subscription of another connection is live and
  unchanged.
\<close>
theorem closed_connection_is_silenced:
  fixes c :: Core and rt :: Runtime and sk :: sink
  assumes "core_inv c" and "rt_ok rt"
  defines "c' \<equiv> Closed rt sk c"
  shows "(\<forall>p \<in> bus_live (co_bus c'). sub_sink (sub_at c' p) \<noteq> sk) \<and> map_of (co_subs c') sk = None \<and>
    (\<forall>p \<in> bus_live (co_bus c). sub_sink (sub_at c p) \<noteq> sk \<longrightarrow>
       p \<in> bus_live (co_bus c') \<and> sub_at c' p = sub_at c p)"
proof -
  note b = core_invD(2) [OF assms(1)] and v = rt_okD(3) [OF assms(2)]
  have "b_heap (UnregisterSink (rt_ptrs rt) sk (co_bus c)) ! p = b_heap (co_bus c) ! p"
    if "sub_sink (b_heap (co_bus c) ! p) \<noteq> sk" for p
    unfolding UnregisterSink_def Let_def using that by (intro fold_Unsubscribe_other) simp
  with UnregisterSink_sel [OF b v, of sk] show ?thesis
    by (auto simp: c'_def Closed_def sub_at_def map_of_delete_if)
qed

theorem closed_connection_is_silenced_witness:
  "0 \<in> bus_live (co_bus core1) \<and> sub_sink (sub_at core1 0) = 7 \<and> 0 \<notin> bus_live (co_bus (Closed sample_rt 7 core1))"
proof (intro conjI)
  show "0 \<in> bus_live (co_bus core1)" "sub_sink (sub_at core1 0) = 7" by code_simp+
  have "sub_sink (sub_at (Closed sample_rt 7 core1) 0) = 7" by code_simp
  then show "0 \<notin> bus_live (co_bus (Closed sample_rt 7 core1))"
    using closed_connection_is_silenced [OF core_samples_inv(2) sample_rt_ok(1), of 7] by blast
qed

end
