(* ===== verification/HandlerProps.thy ===== *)
theory HandlerProps
  imports CoreProps
begin

text \<open>Further properties of the message handler: emits, status, focus, and rejected requests.\<close>

section \<open>Emits\<close>

definition state_of :: "Registry \<Rightarrow> string \<Rightarrow> State" where
  "state_of r sid = (case Get r sid of None \<Rightarrow> StateUnknown | Some s \<Rightarrow> s_State s)"

lemma Apply_state_of:
  assumes "known_event (em_Event m)"
  shows "u_From (fst (Apply m t0 t1 r)) = state_of r (em_SessionID m)"
    and "u_To (fst (Apply m t0 t1 r)) = state_of (snd (Apply m t0 t1 r)) (em_SessionID m)"
    and "u_Changed (fst (Apply m t0 t1 r)) \<longleftrightarrow>
      state_of r (em_SessionID m) \<noteq> state_of (snd (Apply m t0 t1 r)) (em_SessionID m)"
proof -
  have valid: "u_Valid (fst (Apply m t0 t1 r))" using assms by simp
  have "s_State (entry (em_SessionID m) t0 r) = state_of r (em_SessionID m)"
    by (simp add: entry_def state_of_def Get_def split: option.splits)
  with Apply_result [OF valid]
  show "u_From (fst (Apply m t0 t1 r)) = state_of r (em_SessionID m)"
    "u_To (fst (Apply m t0 t1 r)) = state_of (snd (Apply m t0 t1 r)) (em_SessionID m)"
    "u_Changed (fst (Apply m t0 t1 r)) \<longleftrightarrow>
      state_of r (em_SessionID m) \<noteq> state_of (snd (Apply m t0 t1 r)) (em_SessionID m)"
    by (simp_all add: state_of_def Get_def)
qed

lemma handleEmit_registry:
  "co_reg (handleEmit rt sk m c) = snd (Apply m (rt_now rt 0) (rt_now rt 1) (co_reg c))"
  by (simp add: handleEmit_eq)

text \<open>
  C12: An emit with a recognised event is acked on its own connection and starts one task
  for the focus work. If it changes the state of its session, and only then, the bus offers
  every live subscription that follows the session one \<open>state_change\<close> with the state before
  and the state the registry now holds. An unrecognised event is refused and changes nothing.
\<close>
theorem emit_acks_then_announces_changes:
  fixes c :: Core and m :: EmitMessage and rt :: Runtime and sk :: sink
  assumes "core_inv c" and "rt_ok rt"
  defines "c' \<equiv> handleEmit rt sk m c" and "sid \<equiv> em_SessionID m"
  shows "if known_event (em_Event m)
    then co_sent c' = co_sent c @ [(sk, Ack True [])] \<and>
      (\<exists>upd. co_tasks c' = co_tasks c @ [AfterEmit m upd]) \<and>
      co_subs c' = co_subs c \<and> co_focus c' = co_focus c \<and>
      (\<forall>p < length (b_heap (co_bus c)). sub_at c' p =
        (if state_of (co_reg c) sid \<noteq> state_of (co_reg c') sid \<and> p \<in> bus_live (co_bus c)
         then offer sid (StateChangeMsg sid (state_of (co_reg c) sid) (state_of (co_reg c') sid)
                (reasonOf m) (rt_now rt 2)) (sub_at c p)
         else sub_at c p))
    else c' = Send sk (Ack False (''unknown event: '' @ em_Event m)) c"
proof (cases "known_event (em_Event m)")
  case True
  with core_invD(2) [OF assms(1)] rt_okD(3) [OF assms(2)] Apply_state_of [OF True] show ?thesis
    by (auto simp: c'_def sid_def handleEmit_eq sub_at_def co_bus_emit_tail Publish_sel)
next
  case False
  then show ?thesis
    by (simp add: c'_def handleEmit_eq emit_head_def Apply_unknown Let_def case_prod_beta)
qed

theorem emit_acks_then_announces_changes_witness:
  "sub_ch (sub_at (handleEmit sample_rt 8 attention_emit core2) 0) =
     sub_ch (sub_at core2 0) @ [StateChangeMsg ''s1'' StateWorking StateNeedsAttention ''agent_needs_attention'' 2] \<and>
   co_sent (handleEmit sample_rt 8 attention_emit core2) = co_sent core2 @ [(8, Ack True [])]"
proof
  show "sub_ch (sub_at (handleEmit sample_rt 8 attention_emit core2) 0) =
     sub_ch (sub_at core2 0) @ [StateChangeMsg ''s1'' StateWorking StateNeedsAttention ''agent_needs_attention'' 2]"
    by code_simp
  have "known_event (em_Event attention_emit)"
    by (simp add: attention_emit_def sample_emit_def StateForEvent_def)
  then show "co_sent (handleEmit sample_rt 8 attention_emit core2) = co_sent core2 @ [(8, Ack True [])]"
    using emit_acks_then_announces_changes [OF core_samples_inv(3) sample_rt_ok(1), of attention_emit 8]
    by (simp only: if_True)
qed

section \<open>Rejected requests\<close>

text \<open>
  A subscription with any other mode is refused with one negative ack that quotes the
  mode; no subscription is created and nothing else changes.
\<close>
theorem invalid_mode_is_refused:
  assumes "\<not> valid_mode m"
  shows "handleSubscribe rt sk m c = Send sk (Ack False (''invalid mode: '' @ rt_Quote rt (sb_Mode m))) c"
  using assms by (auto simp: handleSubscribe_def valid_mode_def mode_of_def Let_def split: if_splits)

theorem invalid_mode_is_refused_witness:
  "handleSubscribe sample_rt 9 (sample_subscribe ''all'' [] []) core2 =
     Send 9 (Ack False ([CHR ''i'', CHR ''n'', CHR ''v'', CHR ''a'', CHR ''l'', CHR ''i'', CHR ''d''] @
       '' mode: '' @ [CHR 0x22] @ ''all'' @ [CHR 0x22])) core2"
proof -
  have "\<not> valid_mode (sample_subscribe ''all'' [] [])"
    by (simp add: valid_mode_def mode_of_def sample_subscribe_def)
  from invalid_mode_is_refused [OF this, of sample_rt 9 core2] show ?thesis
    by (simp add: sample_rt_def sample_subscribe_def)
qed

section \<open>Status\<close>

definition bound_activities :: "Core \<Rightarrow> string \<Rightarrow> string list" where
  "bound_activities c sid =
     map sub_ActivityID (filter (\<lambda>sub. sub_BoundSession sub = sid \<and> sub_ActivityID sub \<noteq> [])
       (map (\<lambda>(sk, p). sub_at c p) (co_subs c)))"

lemma status_activities:
  assumes "range_order v"
  shows "mset (st_BoundActivities (session_status v c s)) = mset (bound_activities c (s_ID s))"
proof -
  have "mset (v (co_subs c)) = mset (co_subs c)" using assms by (simp add: range_order_def)
  then show ?thesis by (simp add: session_status_def bound_activities_def listSubs_def)
qed

text \<open>
  C31: The status reply is one message to the requester with exactly one entry per registered
  session, in the order the map is visited, carrying the session's state, pane and time and
  the activities whose connection is bound to it, each connection counted once; asking for it
  changes nothing.
\<close>
theorem status_describes_the_registry:
  assumes "core_inv c" and "rt_ok rt"
  shows "\<exists>out. handleStatus rt sk c =
      Send sk (M_Status \<lparr>e_V = Version, e_Type = ''status'', sr_ServerVersion = co_version c, sr_Sessions = out\<rparr>) c \<and>
    mset (map st_SessionID out) = mset (map fst (co_reg c)) \<and>
    (\<forall>st \<in> set out. \<exists>s. Get (co_reg c) (st_SessionID st) = Some s \<and>
       st_State st = s_State s \<and> st_TmuxPane st = s_TmuxPane s \<and> st_TmuxSession st = s_TmuxSession s \<and>
       st_LastEventAt st = s_LastEventAt s \<and>
       mset (st_BoundActivities st) = mset (bound_activities c (st_SessionID st)))"
proof -
  let ?ss = "List_sessions (rt_sessions rt 0) (co_reg c)"
  let ?out = "map (\<lambda>(n, s). session_status (rt_table rt n) c s) (List.enumerate 0 ?ss)"
  note r = core_invD(1) [OF assms(1)] and v = rt_okD(1,2) [OF assms(2)]
  have ids: "map st_SessionID ?out = map s_ID ?ss"
  proof -
    have "map st_SessionID ?out = map (s_ID \<circ> snd) (List.enumerate 0 ?ss)"
      by (simp add: session_status_def comp_def split_def)
    also have "\<dots> = map s_ID (map snd (List.enumerate 0 ?ss))" by (simp only: map_map)
    finally show ?thesis by (simp only: map_snd_enumerate)
  qed
  have "mset (map s_ID ?ss) = mset (map s_ID (map snd (co_reg c)))"
    using v(1) [of 0] by (simp add: List_sessions_def range_order_def del: map_map)
  also have "map s_ID (map snd (co_reg c)) = map fst (co_reg c)"
    using r by (auto simp: reg_inv_def)
  finally have "mset (map st_SessionID ?out) = mset (map fst (co_reg c))" by (simp only: ids)
  moreover have "\<exists>s. Get (co_reg c) (st_SessionID st) = Some s \<and>
       st_State st = s_State s \<and> st_TmuxPane st = s_TmuxPane s \<and> st_TmuxSession st = s_TmuxSession s \<and>
       st_LastEventAt st = s_LastEventAt s \<and>
       mset (st_BoundActivities st) = mset (bound_activities c (st_SessionID st))" if st: "st \<in> set ?out" for st
  proof -
    from st obtain n s where x: "(n, s) \<in> set (List.enumerate 0 ?ss)"
      and st': "st = session_status (rt_table rt n) c s" by auto
    from imageI [OF x, of snd] have "s \<in> snd ` set (List.enumerate 0 ?ss)" by simp
    then have "s \<in> set ?ss" by (simp only: map_snd_enumerate flip: list.set_map)
    note s = this st'
    then have "Get (co_reg c) (s_ID s) = Some s"
      using reg_inv_snd [OF r, of s] range_order_set [OF v(1) [of 0], of "map snd (co_reg c)"]
      by (auto simp: List_sessions_def Get_def)
    with s(2) status_activities [OF v(2) [of n], of c s] show ?thesis
      by (simp add: session_status_def)
  qed
  moreover have "handleStatus rt sk c = Send sk (M_Status \<lparr>e_V = Version, e_Type = ''status'',
      sr_ServerVersion = co_version c, sr_Sessions = ?out\<rparr>) c"
    by (simp add: handleStatus_def)
  ultimately show ?thesis by blast
qed

theorem status_describes_the_registry_witness:
  "\<exists>out. handleStatus sample_rt 9 core2 =
      Send 9 (M_Status \<lparr>e_V = Version, e_Type = ''status'', sr_ServerVersion = ''v1'', sr_Sessions = out\<rparr>) core2 \<and>
    mset (map st_SessionID out) = {# ''s1'' #}"
proof -
  have "co_version core2 = ''v1''" "map fst (co_reg core2) = [''s1'']" by code_simp+
  with status_describes_the_registry [OF core_samples_inv(3) sample_rt_ok(1), of 9] show ?thesis by auto
qed

section \<open>Focus\<close>

text \<open>What the daemon asks of tmux to focus a pane: nothing, or one command on the given server.\<close>

definition focus_attempt :: "TmuxFactory option \<Rightarrow> string \<Rightarrow> string \<Rightarrow> focus_op list" where
  "focus_attempt factory socket pane =
     (case factory of
        None \<Rightarrow> []
      | Some f \<Rightarrow>
          (case f socket of
             None \<Rightarrow> []
           | Some ctrl \<Rightarrow>
               if pane = [] \<or> \<not> c_Available ctrl then []
               else [\<lparr>fo_socket = socket, fo_pane = pane, fo_error = c_FocusPane ctrl pane\<rparr>]))"

lemma co_focus_focusPaneLocked:
  "co_focus (focusPaneLocked s pane c) = co_focus c @ focus_attempt (co_factory c) (s_TmuxSocket s) pane"
  by (auto simp: focusPaneLocked_def focus_attempt_def split: option.splits)

lemma focus_attempt_None [simp]: "focus_attempt None socket pane = []"
  and focus_attempt_Nil [simp]: "focus_attempt f socket [] = []"
  by (auto simp: focus_attempt_def split: option.splits)

lemma activityPaneFor_spec:
  assumes "range_order visit"
  shows "(activityPaneFor visit sid c = [] \<longleftrightarrow>
      (\<forall>(sk, p) \<in> set (co_subs c). sub_BoundSession (sub_at c p) = sid \<longrightarrow> sub_ActivityPane (sub_at c p) = [])) \<and>
    (activityPaneFor visit sid c \<noteq> [] \<longrightarrow> (\<exists>(sk, p) \<in> set (co_subs c).
       sub_BoundSession (sub_at c p) = sid \<and> sub_ActivityPane (sub_at c p) = activityPaneFor visit sid c))"
proof -
  have subs: "set (listSubs visit c) = (\<lambda>(sk, p). sub_at c p) ` set (co_subs c)"
    using range_order_set [OF assms, of "co_subs c"] by (simp add: listSubs_def)
  show ?thesis
  proof (cases "find (\<lambda>s. sub_BoundSession s = sid \<and> sub_ActivityPane s \<noteq> []) (listSubs visit c)")
    case None
    then have "\<forall>s \<in> set (listSubs visit c). \<not> (sub_BoundSession s = sid \<and> sub_ActivityPane s \<noteq> [])"
      by (simp add: find_None_iff)
    with None show ?thesis unfolding subs by (auto simp: activityPaneFor_def)
  next
    case (Some s)
    then have "s \<in> set (listSubs visit c)" "sub_BoundSession s = sid" "sub_ActivityPane s \<noteq> []"
      by (auto simp: find_Some_iff)
    with Some show ?thesis unfolding subs by (fastforce simp: activityPaneFor_def)
  qed
qed

text \<open>
  C19: The focus for a transition is applied only if the session is still in the state the
  transition led to; a stale one does nothing. A session that needs attention gets its own
  Claude pane focused, a session that is working gets the pane of an activity bound to it (one
  that has a pane, if any has), on the session's tmux server; there is at most one command, and
  nothing but the log of focus commands changes.
\<close>
theorem focus_follows_the_current_state:
  fixes c :: Core and rt :: Runtime and sid to :: string
  assumes "rt_ok rt"
  defines "pane \<equiv> activityPaneFor (rt_table rt 0) sid c"
  shows "applyFocus rt sid to c = c\<lparr>co_focus := co_focus c @
      (case Get (co_reg c) sid of
         None \<Rightarrow> []
       | Some s \<Rightarrow>
           if s_State s \<noteq> to then []
           else if to = StateNeedsAttention then focus_attempt (co_factory c) (s_TmuxSocket s) (s_TmuxPane s)
           else if to = StateWorking then focus_attempt (co_factory c) (s_TmuxSocket s) pane
           else [])\<rparr> \<and>
    (pane = [] \<longleftrightarrow> (\<forall>(sk, p) \<in> set (co_subs c).
       sub_BoundSession (sub_at c p) = sid \<longrightarrow> sub_ActivityPane (sub_at c p) = [])) \<and>
    (pane \<noteq> [] \<longrightarrow> (\<exists>(sk, p) \<in> set (co_subs c).
       sub_BoundSession (sub_at c p) = sid \<and> sub_ActivityPane (sub_at c p) = pane))"
proof -
  have upd: "focusPaneLocked s q c =
      c\<lparr>co_focus := co_focus c @ focus_attempt (co_factory c) (s_TmuxSocket s) q\<rparr>" for s q
    by (auto simp: focusPaneLocked_def focus_attempt_def split: option.splits)
  have "applyFocus rt sid to c = c\<lparr>co_focus := co_focus c @
      (case Get (co_reg c) sid of
         None \<Rightarrow> []
       | Some s \<Rightarrow>
           if s_State s \<noteq> to then []
           else if to = StateNeedsAttention then focus_attempt (co_factory c) (s_TmuxSocket s) (s_TmuxPane s)
           else if to = StateWorking then focus_attempt (co_factory c) (s_TmuxSocket s) pane
           else [])\<rparr>"
    by (auto simp: applyFocus_def upd pane_def split: option.splits)
  then show ?thesis
    unfolding pane_def using activityPaneFor_spec [OF rt_okD(2) [OF assms(1)]] by blast
qed

theorem focus_follows_the_current_state_witness:
  "applyFocus sample_rt ''s1'' StateNeedsAttention core_tmux = core_tmux \<and>
   co_focus (applyFocus sample_rt ''s1'' StateNeedsAttention (handleEmit sample_rt 8 attention_emit core_tmux)) =
     [\<lparr>fo_socket = ''/t'', fo_pane = ''%1'', fo_error = None\<rparr>]"
proof
  have "map_option s_State (Get (co_reg core_tmux) ''s1'') = Some StateWorking" by code_simp
  then show "applyFocus sample_rt ''s1'' StateNeedsAttention core_tmux = core_tmux"
    using focus_follows_the_current_state [OF sample_rt_ok(1), of "''s1''" StateNeedsAttention core_tmux]
    by (auto simp: StateWorking_def StateNeedsAttention_def)
  show "co_focus (applyFocus sample_rt ''s1'' StateNeedsAttention (handleEmit sample_rt 8 attention_emit core_tmux)) =
     [\<lparr>fo_socket = ''/t'', fo_pane = ''%1'', fo_error = None\<rparr>]"
    by code_simp
qed

text \<open>
  C32: A focus request is refused on a connection with no subscription or an unbound one.
  Otherwise it is acked, and with tmux configured it starts one task; when that task runs,
  in whatever state, its only effect is one attempt to focus the Claude pane that
  the session the subscription is then bound to is registered with, on that session's server.
\<close>
theorem focus_request_focuses_the_claude_pane:
  "(case map_of (co_subs c) sk of
      None \<Rightarrow> handleFocusRequest sk c = Send sk (Ack False ''not bound to a session'') c
    | Some p \<Rightarrow>
        if sub_BoundSession (sub_at c p) = [] then
          handleFocusRequest sk c = Send sk (Ack False ''not bound to a session'') c
        else co_sent (handleFocusRequest sk c) = co_sent c @ [(sk, Ack True [])] \<and>
          co_tasks (handleFocusRequest sk c) = co_tasks c @ (if co_factory c = None then [] else [FocusReq p])) \<and>
   run_task rt (FocusReq p) d = d\<lparr>co_focus := co_focus d @
     (case Get (co_reg d) (sub_BoundSession (sub_at d p)) of
        None \<Rightarrow> [] | Some s \<Rightarrow> focus_attempt (co_factory d) (s_TmuxSocket s) (s_TmuxPane s))\<rparr>"
proof (intro conjI)
  show "run_task rt (FocusReq p) d = d\<lparr>co_focus := co_focus d @
     (case Get (co_reg d) (sub_BoundSession (sub_at d p)) of
        None \<Rightarrow> [] | Some s \<Rightarrow> focus_attempt (co_factory d) (s_TmuxSocket s) (s_TmuxPane s))\<rparr>"
    by (auto simp: run_task_def runFocusReq_def focusPaneLocked_def focus_attempt_def split: option.splits)
qed (auto simp: handleFocusRequest_def split: option.splits)

end
