(* ===== verification/DaemonProps.thy ===== *)
theory DaemonProps
  imports HandlerProps
begin

text \<open>
  Properties of the whole daemon under every interleaving of its goroutines, and of the
  janitor's sweep.
\<close>

lemmas daemon_run_Cons = run_Cons [where step = "daemon_step j" for j]

section \<open>Focus: the last state wins\<close>


text \<open>An emit from pane \<open>%1\<close>, its announcement, the rebinding, and its focus.\<close>

definition emit_upd :: Update where
  "emit_upd = fst (Apply working_emit 0 1 [])"

definition emit_labels :: "label list" where
  "emit_labels = [L_Emit 8 working_emit, L_Task (EmitTail working_emit emit_upd),
     L_Task (AfterEmit working_emit emit_upd), L_Focus ''s1'' StateWorking True]"

definition after_task :: "task \<Rightarrow> Core \<Rightarrow> Core" where
  "after_task t c = run_task sample_rt t (take_task t c)"

definition focused_core :: Core where
  "focused_core = after_task (ApplyFocus ''s1'' StateWorking) (after_task (AfterEmit working_emit emit_upd)
     (after_task (EmitTail working_emit emit_upd)
        (start_emit sample_rt 8 working_emit (NewCore ''v1'' (Some sample_factory)))))"

lemma emit_upd_facts: "u_Valid emit_upd" "u_Changed emit_upd" "u_To emit_upd = StateWorking"
  by code_simp+

lemma task_step:
  "t \<in> set (co_tasks c) \<Longrightarrow> \<not> is_focus t \<Longrightarrow> daemon_step j c (L_Task t) (after_task t c)"
  unfolding after_task_def by (rule daemon_step.task) simp_all

lemma focused_core_run: "run (daemon_step j) (NewCore ''v1'' (Some sample_factory)) emit_labels focused_core"
proof -
  let ?c0 = "NewCore ''v1'' (Some sample_factory)"
  let ?c1 = "start_emit sample_rt 8 working_emit ?c0"
  let ?c2 = "after_task (EmitTail working_emit emit_upd) ?c1"
  let ?c3 = "after_task (AfterEmit working_emit emit_upd) ?c2"
  have known: "known_event (em_Event working_emit)"
    by (simp add: working_emit_def sample_emit_def StateForEvent_def)
  have sid: "em_SessionID working_emit = ''s1''" by (simp add: working_emit_def sample_emit_def)
  have t1: "co_tasks ?c1 = [EmitTail working_emit emit_upd]"
    using known by (simp add: start_emit_sel NewCore_def New_registry_def sample_rt_def emit_upd_def)
  then have t2: "co_tasks ?c2 = [AfterEmit working_emit emit_upd]"
    by (simp add: after_task_def run_task_def)
  then have t3: "co_tasks ?c3 = [ApplyFocus ''s1'' StateWorking]"
    by (simp add: after_task_def run_task_def Let_def emit_upd_facts sid)
  have "daemon_step j ?c0 (L_Emit 8 working_emit) ?c1" by (rule daemon_step.emit) simp
  moreover have "daemon_step j ?c1 (L_Task (EmitTail working_emit emit_upd)) ?c2"
    by (rule task_step) (simp_all add: t1 is_focus_def)
  moreover have "daemon_step j ?c2 (L_Task (AfterEmit working_emit emit_upd)) ?c3"
    by (rule task_step) (simp_all add: t2 is_focus_def)
  moreover have "daemon_step j ?c3 (L_Focus ''s1'' StateWorking (is_current ''s1'' StateWorking ?c3)) focused_core"
    unfolding focused_core_def after_task_def [of "ApplyFocus _ _"]
    by (rule daemon_step.focus) (simp_all add: t3)
  moreover have "is_current ''s1'' StateWorking ?c3" by code_simp
  ultimately show ?thesis
    unfolding emit_labels_def by (intro run_Cons [OF _ run_Cons] run_Cons run.run_Nil) simp_all
qed


section \<open>Background work ends\<close>

definition task_weight :: "task \<Rightarrow> nat" where
  "task_weight t = (case t of EmitTail m upd \<Rightarrow> 3 | AfterEmit m upd \<Rightarrow> 2 | _ \<Rightarrow> 1)"

definition work_left :: "Core \<Rightarrow> nat" where
  "work_left c = sum_list (map task_weight (co_tasks c))"

definition task_label :: "label \<Rightarrow> bool" where
  "task_label l = (case l of L_Task t \<Rightarrow> True | L_Focus sid to fresh \<Rightarrow> True | _ \<Rightarrow> False)"

lemma sum_list_remove1: "x \<in> set xs \<Longrightarrow> sum_list (map f (remove1 x xs)) + f x = (sum_list (map f xs) :: nat)"
  by (induction xs) auto

lemma work_left_task:
  assumes "t \<in> set (co_tasks c)"
  shows "work_left (run_task rt t (take_task t c)) < work_left c"
  using sum_list_remove1 [OF assms, of task_weight]
  by (cases t) (auto simp: work_left_def run_task_def task_weight_def Let_def)

lemma co_reg_run_task [simp]: "co_reg (run_task rt t c) = co_reg c"
  by (cases t) (simp_all add: run_task_def Let_def)

lemma work_left_step: "daemon_step j c l d \<Longrightarrow> task_label l \<Longrightarrow> work_left d < work_left c"
  by (cases rule: daemon_step.cases) (auto simp: task_label_def intro: work_left_task)

lemma work_left_run:
  "run (daemon_step j) c ls d \<Longrightarrow> \<forall>l \<in> set ls. task_label l \<Longrightarrow> length ls + work_left d \<le> work_left c"
proof (induction rule: run.induct)
  case (run_Nil s)
  then show ?case by simp
next
  case (run_snoc s ls t l u)
  then show ?case using work_left_step [OF run_snoc.hyps(2)] by force
qed

lemma work_left_bound: "work_left c \<le> 3 * length (co_tasks c)"
proof -
  have "sum_list (map task_weight ts) \<le> 3 * length ts" for ts
    by (induction ts) (auto simp: task_weight_def split: task.splits)
  then show ?thesis by (simp add: work_left_def)
qed

lemma tasks_drain:
  "\<exists>ls d. run (daemon_step j) c ls d \<and> (\<forall>l \<in> set ls. task_label l) \<and> co_tasks d = [] \<and> co_reg d = co_reg c"
proof (induction "work_left c" arbitrary: c rule: less_induct)
  case less
  show ?case
  proof (cases "co_tasks c")
    case Nil
    then show ?thesis by (intro exI [of _ "[]"] exI [of _ c]) simp
  next
    case (Cons t ts)
    let ?d = "after_task t c"
    have t: "t \<in> set (co_tasks c)" using Cons by simp
    obtain l where l: "daemon_step j c l ?d" "task_label l"
    proof (cases "is_focus t")
      case False
      with that [of "L_Task t"] task_step [OF t] show ?thesis by (simp add: task_label_def)
    next
      case True
      then obtain sid to where t': "t = ApplyFocus sid to" by (auto simp: is_focus_def split: task.splits)
      with t have "daemon_step j c (L_Focus sid to (is_current sid to c)) ?d"
        unfolding after_task_def t' by (intro daemon_step.focus) simp_all
      with that show ?thesis by (simp add: task_label_def)
    qed
    from less [OF work_left_task [OF t, of sample_rt, folded after_task_def]]
    obtain ls d where "run (daemon_step j) ?d ls d" "\<forall>l \<in> set ls. task_label l" "co_tasks d = []"
      "co_reg d = co_reg ?d" by blast
    with l daemon_run_Cons [OF l(1)] show ?thesis
      by (intro exI [of _ "l # ls"] exI [of _ d]) (simp add: after_task_def)
  qed
qed



section \<open>Every reachable state is consistent\<close>



section \<open>Announcements can arrive out of order\<close>

definition race_emit1 :: EmitMessage where
  "race_emit1 = sample_emit EventAgentNeedsAttention ''s1'' 20 ''%1'' ''/t''"

definition race_emit2 :: EmitMessage where
  "race_emit2 = sample_emit EventAgentWorking ''s1'' 30 ''%1'' ''/t''"

definition race_heads :: Core where
  "race_heads = start_emit sample_rt 9 race_emit2 (start_emit sample_rt 8 race_emit1 core1)"

definition race_core :: Core where
  "race_core = after_task (hd (co_tasks race_heads)) (after_task (last (co_tasks race_heads)) race_heads)"

text \<open>
  C36: Two emits for one session on two connections can be announced in the reverse of the order in
  which they were applied, because the registry is released before the bus is asked to
  publish: the daemon reaches a state with no announcement pending and nothing dropped, where the session is working
  but the last state change a subscriber of it gets says it needs attention.
\<close>
theorem announcements_can_be_reordered:
  "\<exists>ls. run (daemon_step j) (NewCore ''v1'' None) ls race_core \<and>
     (\<forall>m upd. EmitTail m upd \<notin> set (co_tasks race_core)) \<and>
     state_of (co_reg race_core) ''s1'' = StateWorking \<and>
     \<not> sub_overflow (sub_at race_core 0) \<and> 0 \<in> bus_live (co_bus race_core) \<and>
     (\<exists>from r now. last (sub_ch (sub_at race_core 0)) = StateChangeMsg ''s1'' from StateNeedsAttention r now)"
proof -
  let ?c0 = "NewCore ''v1'' None" and ?m = "M_Subscribe (sample_subscribe ''any'' [] ''%2'')"
  let ?c2 = "start_emit sample_rt 8 race_emit1 core1"
  let ?t1 = "hd (co_tasks race_heads)" and ?t2 = "last (co_tasks race_heads)"
  have sub: "daemon_step j ?c0 (L_Message 7 ?m) core1"
    using daemon_step.message [of sample_rt ?m j ?c0 7] by (simp add: is_emit_def Handle_def core1_def core0_def)
  have e1: "daemon_step j core1 (L_Emit 8 race_emit1) ?c2" by (rule daemon_step.emit) simp
  have e2: "daemon_step j ?c2 (L_Emit 9 race_emit2) race_heads"
    unfolding race_heads_def by (rule daemon_step.emit) simp
  have tasks: "\<exists>m1 u1 m2 u2. co_tasks race_heads = [EmitTail m1 u1, EmitTail m2 u2] \<and>
      EmitTail m1 u1 \<noteq> EmitTail m2 u2"
  proof -
    have "co_tasks core1 = []" by code_simp
    moreover have "known_event (em_Event race_emit1)" "known_event (em_Event race_emit2)"
      "race_emit1 \<noteq> race_emit2"
      by (simp_all add: race_emit1_def race_emit2_def sample_emit_def StateForEvent_def)
    ultimately show ?thesis by (simp add: race_heads_def start_emit_sel)
  qed
  then have mem: "?t1 \<in> set (co_tasks race_heads)" "?t2 \<in> set (co_tasks race_heads)" "?t1 \<noteq> ?t2"
    "\<not> is_focus ?t1" "\<not> is_focus ?t2" by (auto simp: is_focus_def)
  then have s2: "daemon_step j race_heads (L_Task ?t2) (after_task ?t2 race_heads)" by (intro task_step)
  have "?t1 \<in> set (co_tasks (after_task ?t2 race_heads))"
    using tasks by (auto simp: after_task_def run_task_def)
  with mem have s1: "daemon_step j (after_task ?t2 race_heads) (L_Task ?t1) race_core"
    unfolding race_core_def by (intro task_step)
  have "run (daemon_step j) ?c0 [L_Message 7 ?m, L_Emit 8 race_emit1, L_Emit 9 race_emit2, L_Task ?t2, L_Task ?t1] race_core"
    by (rule daemon_run_Cons [OF sub daemon_run_Cons [OF e1 daemon_run_Cons [OF e2
      daemon_run_Cons [OF s2 daemon_run_Cons [OF s1 run.run_Nil]]]]])
  moreover have "\<forall>m upd. EmitTail m upd \<notin> set (co_tasks race_core)"
    using tasks by (auto simp: race_core_def after_task_def run_task_def)
  moreover have "state_of (co_reg race_core) ''s1'' = StateWorking" by code_simp
  moreover have "\<not> sub_overflow (sub_at race_core 0)" "0 \<in> bus_live (co_bus race_core)" by code_simp+
  moreover have "last (sub_ch (sub_at race_core 0)) =
      StateChangeMsg ''s1'' StateUnknown StateNeedsAttention ''agent_needs_attention'' 2" by code_simp
  ultimately show ?thesis by blast
qed

section \<open>Sweeping\<close>

definition pane_gone :: "TmuxFactory option \<Rightarrow> Session \<Rightarrow> bool" where
  "pane_gone factory s \<longleftrightarrow> s_TmuxPane s \<noteq> [] \<and> s_TmuxSocket s \<noteq> [] \<and>
     (case factory of
        None \<Rightarrow> False
      | Some f \<Rightarrow> (case f (s_TmuxSocket s) of
            None \<Rightarrow> False
          | Some ctrl \<Rightarrow> c_Available ctrl \<and> \<not> c_PaneExists ctrl (s_TmuxPane s)))"

lemma reapable_sweep:
  "reapable idle (Some (sweep_paneExists f)) now s \<longleftrightarrow>
     s_State s \<noteq> StateUnknown \<and> time_Sub now (s_LastEventAt s) > idle \<and> pane_gone f s"
  by (auto simp: reapable_def sweep_paneExists_def pane_gone_def split: option.splits)

lemma Get_Sweep:
  assumes "core_inv c" "rt_ok rt" "0 < ja_idleLimit j"
  shows "Get (co_reg (snd (Sweep rt j c))) sid =
    map_option (reap (ja_idleLimit j) (Some (sweep_paneExists (co_factory c))) (rt_now rt 0)) (Get (co_reg c) sid)"
  using assms by (simp add: Get_def map_of_GC core_invD)


text \<open>A daemon whose only session registered a pane of a tmux server that has none.\<close>

definition dead_core :: Core where
  "dead_core = handleEmit sample_rt 8 working_emit
     (handleSubscribe sample_rt 7 (sample_subscribe ''any'' [] ''%2'') (NewCore ''v1'' (Some empty_factory)))"

lemma dead_core_inv: "core_inv dead_core"
  by (simp add: dead_core_def core_inv_handlers)

lemma dead_core_reaped: "fst (sweep_registry late_rt NewJanitor dead_core) = 1"
proof -
  have "map s_State (map snd (co_reg dead_core)) = [StateWorking]" by code_simp
  then obtain s where s: "map snd (co_reg dead_core) = [s]" "s_State s = StateWorking" by auto
  moreover have "filter (\<lambda>s. time_Sub (rt_now late_rt 0) (s_LastEventAt s) > ja_idleLimit NewJanitor \<and>
      pane_gone (co_factory dead_core) s) (map snd (co_reg dead_core)) = map snd (co_reg dead_core)"
    by code_simp
  ultimately show ?thesis
    by (simp add: GC_spec core_invD dead_core_inv reapable_sweep StateWorking_def StateUnknown_def split: if_splits)
qed


text \<open>
  A session that registered no tmux socket is never reaped, whatever its pane, its age and
  the tmux server's answers.
\<close>
theorem socketless_sessions_survive:
  assumes "core_inv c" and "rt_ok rt" and "Get (co_reg c) sid = Some s" and "s_TmuxSocket s = []"
  shows "Get (co_reg (snd (Sweep rt j c))) sid = Some s"
proof (cases "0 < ja_idleLimit j")
  case True
  with assms Get_Sweep [OF assms(1,2) True, of sid] show ?thesis
    by (simp add: reap_def reapable_sweep pane_gone_def)
next
  case False
  with assms(3) show ?thesis by (simp add: GC_disabled)
qed

definition socketless_core :: Core where
  "socketless_core = handleEmit sample_rt 8 (sample_emit EventAgentWorking ''s1'' 10 ''%1'' []) (NewCore ''v1'' (Some empty_factory))"

theorem socketless_sessions_survive_witness:
  "map_option s_State (Get (co_reg (snd (Sweep late_rt NewJanitor socketless_core))) ''s1'') = Some StateWorking"
proof -
  have "map_option (\<lambda>s. (s_State s, s_TmuxSocket s)) (Get (co_reg socketless_core) ''s1'') = Some (StateWorking, [])"
    by code_simp
  then obtain s where s: "Get (co_reg socketless_core) ''s1'' = Some s" "s_TmuxSocket s = []" "s_State s = StateWorking"
    by auto
  have "core_inv socketless_core" by (simp add: socketless_core_def core_inv_handlers)
  from socketless_sessions_survive [OF this sample_rt_ok(2) s(1,2), of NewJanitor] s(3) show ?thesis by simp
qed

text \<open>
  C38: The logger \<open>NewJanitor\<close> installs does not discard: a sweep panics exactly when the
  logger's writer is nil and something was reaped, and then nothing is announced although the
  sessions are already unknown. With a real writer no sequence of ticks panics.
\<close>
theorem nil_logger_panics_on_reaping:
  "(fst (Sweep rt j c) = Inl NilDereference \<longleftrightarrow> ja_log j = NilWriter \<and> 0 < fst (sweep_registry rt j c)) \<and>
   (ja_log j = NilWriter \<longrightarrow> co_bus (snd (Sweep rt j c)) = co_bus c) \<and>
   (ja_log j = RealWriter \<longrightarrow> fst (janitor_Run j es c) \<in> {None, Some (Inr ())}) \<and> ja_log NewJanitor = NilWriter"
proof (intro conjI impI)
  show "fst (Sweep rt j c) = Inl NilDereference \<longleftrightarrow> ja_log j = NilWriter \<and> 0 < fst (sweep_registry rt j c)"
    by (auto simp: Sweep_result)
  show "co_bus (snd (Sweep rt j c)) = co_bus c" if "ja_log j = NilWriter" using that by (simp add: Sweep_bus)
  show "ja_log NewJanitor = NilWriter" by (simp add: NewJanitor_def)
  assume w: "ja_log j = RealWriter"
  then show "fst (janitor_Run j es c) \<in> {None, Some (Inr ())}"
  proof (induction j es c rule: janitor_Run.induct)
    case (3 j rt es c)
    then have "fst (Sweep rt j c) = Inr (fst (sweep_registry rt j c))" by (simp add: Sweep_result)
    then obtain d where "Sweep rt j c = (Inr (fst (sweep_registry rt j c)), d)" by (cases "Sweep rt j c") auto
    with 3 show ?case by simp
  qed simp_all
qed

theorem nil_logger_panics_on_reaping_witness:
  "fst (Sweep late_rt NewJanitor dead_core) = Inl NilDereference"
  using nil_logger_panics_on_reaping [of late_rt NewJanitor dead_core] dead_core_reaped by simp

end
