(* ===== verification/Quiet.thy ===== *)
theory Quiet
  imports Daemon Samples
begin

text \<open>
  The daemon's own work comes to rest: the goroutines it has started and the pumps of its bus,
  in whatever order they run, stop on their own when no message arrives, no connection
  closes and the janitor does not sweep.
\<close>

definition own_work :: "label \<Rightarrow> bool" where
  "own_work l \<longleftrightarrow> (case l of L_Task t \<Rightarrow> True | L_Focus sid to fresh \<Rightarrow> True | L_Pump p a \<Rightarrow> True | _ \<Rightarrow> False)"

text \<open>How many more steps a task, and a subscription's pump, can take at most.\<close>

definition task_steps :: "task \<Rightarrow> nat" where
  "task_steps t = (case t of EmitTail m upd \<Rightarrow> 3 | AfterEmit m upd \<Rightarrow> 2 | _ \<Rightarrow> 1)"

definition pump_steps :: "Sub \<Rightarrow> nat" where
  "pump_steps s = 5 * length (sub_ch s) +
     (case sub_pump s of P_Exited \<Rightarrow> 0 | P_Select \<Rightarrow> 1 | P_Send m \<Rightarrow> 2 | P_Resync m \<Rightarrow> 3 | P_Notice m \<Rightarrow> 4 | P_Received m \<Rightarrow> 5)"

definition core_steps :: "Core \<Rightarrow> nat \<times> nat" where
  "core_steps c = (sum_list (map task_steps (co_tasks c)), sum_list (map pump_steps (b_heap (co_bus c))))"

definition shorter :: "(Core \<times> Core) set" where
  "shorter = inv_image (less_than <*lex*> less_than) core_steps"

lemma wf_shorter: "wf shorter"
  by (simp add: shorter_def wf_lex_prod)

lemma pump_step_shorter: "pump_step s a t \<Longrightarrow> pump_steps t < pump_steps s"
  by (induction rule: pump_step.induct) (auto simp: pump_steps_def)

lemma sum_list_smaller:
  "p < length xs \<Longrightarrow> f y < f (xs ! p) \<Longrightarrow> sum_list (map f (xs[p := y])) < (sum_list (map f xs) :: nat)"
  by (induction xs arbitrary: p) (auto simp: nth_Cons split: nat.splits)

lemma task_taken:
  "t \<in> set (co_tasks c) \<Longrightarrow>
     sum_list (map task_steps (co_tasks c)) = task_steps t + sum_list (map task_steps (co_tasks (take_task t c)))"
  by (simp add: sum_list_map_remove1)

lemma run_task_steps:
  "sum_list (map task_steps (co_tasks (run_task rt t c))) < task_steps t + sum_list (map task_steps (co_tasks c))"
  by (cases t) (auto simp: run_task_def task_steps_def Let_def)

lemma own_work_shorter: "daemon_step j c l d \<Longrightarrow> own_work l \<Longrightarrow> (d, c) \<in> shorter"
proof (induction rule: daemon_step.induct)
  case (task rt t c)
  then show ?case using run_task_steps [of rt t "take_task t c"] task_taken [of t c] by (simp add: shorter_def core_steps_def)
next
  case (focus rt sid to c)
  then show ?case
    using run_task_steps [of rt "ApplyFocus sid to" "take_task (ApplyFocus sid to) c"] task_taken [of "ApplyFocus sid to" c]
    by (simp add: shorter_def core_steps_def)
next
  case (pump rt p c a s)
  then show ?case
    using sum_list_smaller [of p "b_heap (co_bus c)" pump_steps s] pump_step_shorter
    by (auto simp: shorter_def core_steps_def modify_sub_def sub_at_def)
qed (simp_all add: own_work_def)

definition pump_idle :: "Sub \<Rightarrow> bool" where
  "pump_idle s \<longleftrightarrow> sub_pump s = P_Exited \<or> sub_pump s = P_Select \<and> sub_ch s = [] \<and> \<not> sub_done s"

definition at_rest :: "Core \<Rightarrow> bool" where
  "at_rest c \<longleftrightarrow> co_tasks c = [] \<and> (\<forall>s \<in> set (b_heap (co_bus c)). pump_idle s)"

lemma pump_can_step: "(\<exists>a t. pump_step s a t) \<longleftrightarrow> \<not> pump_idle s"
proof (cases "sub_pump s")
  case P_Select
  then show ?thesis
    by (cases "sub_ch s") (auto simp: pump_idle_def elim!: pump_stepE intro: pump_step.stop pump_step.recv)
next
  case (P_Received m)
  then have "pump_step s (A_Swap (sub_overflow s))
      (if sub_overflow s then s\<lparr>sub_pump := P_Notice m, sub_overflow := False\<rparr> else s\<lparr>sub_pump := P_Send m\<rparr>)"
    by (simp add: pump_step.swap_true [of s m] pump_step.swap_false [of s m])
  with P_Received show ?thesis by (auto simp: pump_idle_def)
qed (auto simp: pump_idle_def elim!: pump_stepE intro: pump_step.intros)

lemma at_rest_idle: "at_rest c \<longleftrightarrow> co_tasks c = [] \<and> (\<forall>p < length (b_heap (co_bus c)). pump_idle (sub_at c p))"
  by (simp add: at_rest_def sub_at_def all_set_conv_all_nth)

lemma own_work_possible: "(\<exists>l d. own_work l \<and> daemon_step j c l d) \<longleftrightarrow> \<not> at_rest c"
proof
  assume "\<not> at_rest c"
  then consider (task) t where "t \<in> set (co_tasks c)"
    | (pump) p where "p < length (b_heap (co_bus c))" "\<not> pump_idle (sub_at c p)"
    unfolding at_rest_idle by (metis list.set_intros(1) neq_Nil_conv)
  then show "\<exists>l d. own_work l \<and> daemon_step j c l d"
  proof cases
    case task
    show ?thesis
    proof (cases "is_focus t")
      case True
      then obtain sid to where "t = ApplyFocus sid to" by (auto simp: is_focus_def split: task.splits)
      with task have "daemon_step j c (L_Focus sid to (is_current sid to c)) (run_task sample_rt t (take_task t c))"
        by (auto intro: daemon_step.focus)
      then show ?thesis by (intro exI conjI) (auto simp: own_work_def)
    next
      case False
      with task have "daemon_step j c (L_Task t) (run_task sample_rt t (take_task t c))" by (auto intro: daemon_step.task)
      then show ?thesis by (intro exI conjI) (auto simp: own_work_def)
    qed
  next
    case pump
    then obtain a s where "pump_step (sub_at c p) a s" using pump_can_step by blast
    note daemon_step.pump [OF sample_rt_ok(1) pump(1) this, of j]
    then show ?thesis by (intro exI conjI) (auto simp: own_work_def)
  qed
next
  assume "\<exists>l d. own_work l \<and> daemon_step j c l d"
  then obtain l d where "daemon_step j c l d" "own_work l" by blast
  then show "\<not> at_rest c"
  proof (induction rule: daemon_step.induct)
    case (pump rt p c a s)
    then have "\<not> pump_idle (sub_at c p)" using pump_can_step by blast
    with pump(2) show ?case by (auto simp: at_rest_idle)
  qed (auto simp: own_work_def at_rest_def)
qed

lemma comes_to_rest: "\<exists>ls d. run (daemon_step j) c ls d \<and> list_all own_work ls \<and> at_rest d"
  using wf_shorter
proof (induction c rule: wf_induct_rule)
  case (less c)
  show ?case
  proof (cases "at_rest c")
    case True
    then show ?thesis by (intro exI [of _ "[]"] exI [of _ c]) (simp add: run.run_Nil)
  next
    case False
    then obtain l d where step: "own_work l" "daemon_step j c l d" using own_work_possible by blast
    then obtain ls e where "run (daemon_step j) d ls e" "list_all own_work ls" "at_rest e"
      using less own_work_shorter by blast
    with step show ?thesis by (intro exI [of _ "l # ls"] exI [of _ e]) (auto intro: run_Cons)
  qed
qed

end
