(* ===== verification/QuietProps.thy ===== *)
theory QuietProps
  imports Quiet
begin

text \<open>The daemon's own work ends.\<close>

text \<open>
  C21: From every state, whatever the order in which they run, the goroutines that the daemon has
  started and the pumps of its bus stop on their own: there is no infinite run without a new
  message, a closed connection or a sweep. They stop exactly when no task is left and each
  pump has exited or waits on an empty buffer of a live subscription, and such a state is
  always reached.
\<close>

theorem own_work_comes_to_rest:
  "\<not> (\<exists>f. \<forall>i. \<exists>l. own_work l \<and> daemon_step j (f i) l (f (Suc i))) \<and>
   (\<exists>ls d. run (daemon_step j) c ls d \<and> list_all own_work ls \<and> at_rest d) \<and>
   ((\<nexists>l d. own_work l \<and> daemon_step j c l d) \<longleftrightarrow> at_rest c)"
proof (intro conjI)
  show "\<not> (\<exists>f. \<forall>i. \<exists>l. own_work l \<and> daemon_step j (f i) l (f (Suc i)))"
    using wf_shorter own_work_shorter unfolding wf_iff_no_infinite_down_chain by blast
qed (use comes_to_rest own_work_possible [of j c] in blast)+

end
