(* ===== verification/JsonString.thy ===== *)
theory JsonString
  imports Prelude
begin

text \<open>
  JSON string literals as Go's \<open>encoding/json\<close> writes and reads them: the escapes, the HTML-safe
  output, surrogate pairs, and the treatment of invalid UTF-8. A literal that was written for a
  string is scanned to its closing quote and read back as that string.
\<close>

section \<open>Bytes\<close>

abbreviation byte :: "char \<Rightarrow> nat" where "byte c \<equiv> of_char c"

definition dquote :: char where "dquote = CHR 0x22"
definition backslash :: char where "backslash = CHR 0x5C"

definition is_digit :: "char \<Rightarrow> bool" where
  "is_digit c \<longleftrightarrow> 48 \<le> byte c \<and> byte c \<le> 57"

definition is_space :: "char \<Rightarrow> bool" where
  "is_space c \<longleftrightarrow> c = CHR 0x20 \<or> c = CHR 0x09 \<or> c = CHR 0x0D \<or> c = CHR 0x0A"

definition skip_space :: "string \<Rightarrow> string" where
  "skip_space s = dropWhile is_space s"

definition hex_value :: "char \<Rightarrow> nat option" where
  "hex_value c =
     (if is_digit c then Some (byte c - 48)
      else if 97 \<le> byte c \<and> byte c \<le> 102 then Some (byte c - 87)
      else if 65 \<le> byte c \<and> byte c \<le> 70 then Some (byte c - 55)
      else None)"

definition hex_digit :: "nat \<Rightarrow> char" where
  "hex_digit n = (if n < 10 then char_of (48 + n) else char_of (87 + n))"

text \<open>
  The number of bytes of the well-formed UTF-8 sequence at the start of a string
  (\<open>utf8.DecodeRune\<close>); \<open>None\<close> when there is none.
\<close>

definition cont :: "nat \<Rightarrow> nat \<Rightarrow> char \<Rightarrow> bool" where
  "cont lo hi c \<longleftrightarrow> lo \<le> byte c \<and> byte c \<le> hi"

definition second_range :: "nat \<Rightarrow> nat \<times> nat" where
  "second_range b =
     (if b = 0xE0 then (0xA0, 0xBF) else if b = 0xED then (0x80, 0x9F)
      else if b = 0xF0 then (0x90, 0xBF) else if b = 0xF4 then (0x80, 0x8F) else (0x80, 0xBF))"

definition rune_length :: "nat \<Rightarrow> nat" where
  "rune_length b =
     (if b < 0x80 then 1 else if 0xC2 \<le> b \<and> b \<le> 0xDF then 2 else if 0xE0 \<le> b \<and> b \<le> 0xEF then 3
      else if 0xF0 \<le> b \<and> b \<le> 0xF4 then 4 else 0)"

definition rune_size :: "string \<Rightarrow> nat option" where
  "rune_size s =
     (case s of
        [] \<Rightarrow> None
      | c # cs \<Rightarrow>
          let n = rune_length (byte c) in
          if n = 1 then Some 1
          else if n = 0 \<or> length s < n then None
          else if cont (fst (second_range (byte c))) (snd (second_range (byte c))) (cs ! 0) \<and>
            (\<forall>x \<in> set (drop 1 (take (n - 1) cs)). cont 0x80 0xBF x)
          then Some n else None)"

text \<open>\<open>utf8.EncodeRune\<close>; a surrogate or an out-of-range value becomes U+FFFD.\<close>

definition replacement :: string where
  "replacement = [CHR 0xEF, CHR 0xBF, CHR 0xBD]"

definition EncodeRune :: "nat \<Rightarrow> string" where
  "EncodeRune r =
     (if r < 0x80 then [char_of r]
      else if r < 0x800 then [char_of (0xC0 + r div 64), char_of (0x80 + r mod 64)]
      else if r > 0x10FFFF \<or> (0xD800 \<le> r \<and> r \<le> 0xDFFF) then replacement
      else if r < 0x10000 then
        [char_of (0xE0 + r div 4096), char_of (0x80 + r div 64 mod 64), char_of (0x80 + r mod 64)]
      else [char_of (0xF0 + r div 262144), char_of (0x80 + r div 4096 mod 64),
            char_of (0x80 + r div 64 mod 64), char_of (0x80 + r mod 64)])"

lemma rune_size_bounds: "rune_size s = Some n \<Longrightarrow> 0 < n \<and> n \<le> length s"
  by (auto simp: rune_size_def Let_def split: list.splits if_splits)

section \<open>String literals\<close>

text \<open>
  Writing: the text between the quotes. ASCII is copied unless it is a control character,
  a quote, a backslash or one of the characters escaped for HTML; U+2028 and U+2029
  are escaped, other well-formed UTF-8 is copied, and an invalid byte becomes \<open>\ufffd\<close>.
\<close>

definition quote_ascii :: "char \<Rightarrow> string" where
  "quote_ascii c =
     (if c = dquote \<or> c = backslash then [backslash, c]
      else if c = CHR 0x08 then [backslash, CHR ''b'']
      else if c = CHR 0x0C then [backslash, CHR ''f'']
      else if c = CHR 0x0A then [backslash, CHR ''n'']
      else if c = CHR 0x0D then [backslash, CHR ''r'']
      else if c = CHR 0x09 then [backslash, CHR ''t'']
      else if byte c < 0x20 \<or> c = CHR ''<'' \<or> c = CHR ''>'' \<or> c = CHR ''&'' then
        backslash # ''u00'' @ [hex_digit (byte c div 16), hex_digit (byte c mod 16)]
      else [c])"

definition line_separators :: "(string \<times> string) list" where
  "line_separators = [([CHR 0xE2, CHR 0x80, CHR 0xA8], backslash # ''u2028''),
     ([CHR 0xE2, CHR 0x80, CHR 0xA9], backslash # ''u2029'')]"

function quote :: "string \<Rightarrow> string" where
  "quote s =
     (case s of
        [] \<Rightarrow> []
      | c # cs \<Rightarrow>
          if byte c < 0x80 then quote_ascii c @ quote cs
          else
            (case rune_size s of
               None \<Rightarrow> backslash # ''ufffd'' @ quote cs
             | Some n \<Rightarrow>
                 (case map_of line_separators (take n s) of Some e \<Rightarrow> e | None \<Rightarrow> take n s) @ quote (drop n s)))"
  by pat_completeness auto
termination
  by (relation "measure length") (auto dest: rune_size_bounds)

declare quote.simps [simp del]

lemma quote_Nil [simp]: "quote [] = []"
  and quote_low: "byte c < 0x80 \<Longrightarrow> quote (c # cs) = quote_ascii c @ quote cs"
  and quote_invalid: "\<not> byte c < 0x80 \<Longrightarrow> rune_size (c # cs) = None \<Longrightarrow>
    quote (c # cs) = backslash # ''ufffd'' @ quote cs"
  and quote_rune: "\<not> byte c < 0x80 \<Longrightarrow> rune_size (c # cs) = Some n \<Longrightarrow>
    quote (c # cs) = (case map_of line_separators (take n (c # cs)) of Some e \<Rightarrow> e | None \<Rightarrow> take n (c # cs)) @
      quote (drop n (c # cs))"
  by (simp_all add: quote.simps [of "[]"] quote.simps [of "c # cs"])

text \<open>Reading: \<open>\u\<close> escapes with surrogate pairs, and the bytes themselves.\<close>

fun hex4 :: "string \<Rightarrow> nat option" where
  "hex4 (a # b # c # d # s) =
     (case (hex_value a, hex_value b, hex_value c, hex_value d) of
        (Some w, Some x, Some y, Some z) \<Rightarrow> Some (((w * 16 + x) * 16 + y) * 16 + z)
      | _ \<Rightarrow> None)"
| "hex4 _ = None"

definition getu4 :: "string \<Rightarrow> nat option" where
  "getu4 s = (if take 2 s = [backslash, CHR ''u''] then hex4 (drop 2 s) else None)"

definition is_surrogate :: "nat \<Rightarrow> bool" where
  "is_surrogate r \<longleftrightarrow> 0xD800 \<le> r \<and> r < 0xE000"

text \<open>The rune of a \<open>\u\<close> escape at the start of the text, and the number of bytes it takes.\<close>

definition unquote_u :: "string \<Rightarrow> (string \<times> nat) option" where
  "unquote_u s =
     (case getu4 s of
        None \<Rightarrow> None
      | Some r \<Rightarrow>
          if \<not> is_surrogate r then Some (EncodeRune r, 6)
          else
            (case getu4 (drop 6 s) of
               Some r2 \<Rightarrow>
                 if r < 0xDC00 \<and> 0xDC00 \<le> r2 \<and> r2 < 0xE000
                 then Some (EncodeRune ((r - 0xD800) * 1024 + (r2 - 0xDC00) + 0x10000), 12)
                 else Some (replacement, 6)
             | None \<Rightarrow> Some (replacement, 6)))"

definition simple_escape :: "char \<Rightarrow> char option" where
  "simple_escape c =
     (if c = dquote \<or> c = backslash \<or> c = CHR ''/'' then Some c
      else if c = CHR ''b'' then Some (CHR 0x08)
      else if c = CHR ''f'' then Some (CHR 0x0C)
      else if c = CHR ''n'' then Some (CHR 0x0A)
      else if c = CHR ''r'' then Some (CHR 0x0D)
      else if c = CHR ''t'' then Some (CHR 0x09)
      else None)"

lemma unquote_u_size: "unquote_u s = Some (r, n) \<Longrightarrow> 0 < n"
  by (auto simp: unquote_u_def split: option.splits if_splits)

function unquote :: "string \<Rightarrow> string option" where
  "unquote s =
     (case s of
        [] \<Rightarrow> Some []
      | c # cs \<Rightarrow>
          if c = backslash then
            (case cs of
               [] \<Rightarrow> None
             | e # cs' \<Rightarrow>
                 if e = CHR ''u'' then
                   (case unquote_u s of
                      None \<Rightarrow> None
                    | Some (r, n) \<Rightarrow> map_option (\<lambda>t. r @ t) (unquote (drop n s)))
                 else
                   (case simple_escape e of
                      None \<Rightarrow> None
                    | Some x \<Rightarrow> map_option (\<lambda>t. x # t) (unquote cs')))
          else if c = dquote \<or> byte c < 0x20 then None
          else
            (case rune_size s of
               None \<Rightarrow> map_option (\<lambda>t. replacement @ t) (unquote cs)
             | Some n \<Rightarrow> map_option (\<lambda>t. take n s @ t) (unquote (drop n s))))"
  by pat_completeness auto
termination
  by (relation "measure length") (auto dest: rune_size_bounds unquote_u_size)

declare unquote.simps [simp del]

text \<open>
  The scanner: the raw text up to the closing quote, and what follows. It checks the escapes and
  refuses control characters, but looks at no UTF-8.
\<close>

fun scan_string :: "string \<Rightarrow> (string \<times> string) option" where
  "scan_string [] = None"
| "scan_string (c # s) =
     (if c = dquote then Some ([], s)
      else if byte c < 0x20 then None
      else if c \<noteq> backslash then map_option (\<lambda>(raw, rest). (c # raw, rest)) (scan_string s)
      else
        (case s of
           [] \<Rightarrow> None
         | e # s' \<Rightarrow>
             if e = CHR ''u'' \<and> hex4 s' \<noteq> None \<or> simple_escape e \<noteq> None
             then map_option (\<lambda>(raw, rest). (c # e # raw, rest)) (scan_string s')
             else None))"

text \<open>The invalid bytes of a string replaced by U+FFFD.\<close>

function to_valid :: "string \<Rightarrow> string" where
  "to_valid s =
     (case s of
        [] \<Rightarrow> []
      | c # cs \<Rightarrow>
          (case rune_size s of
             None \<Rightarrow> replacement @ to_valid cs
           | Some n \<Rightarrow> take n s @ to_valid (drop n s)))"
  by pat_completeness auto
termination
  by (relation "measure length") (auto dest: rune_size_bounds)

declare to_valid.simps [simp del]

definition valid_utf8 :: "string \<Rightarrow> bool" where
  "valid_utf8 s \<longleftrightarrow> to_valid s = s"

subsection \<open>A written literal is read back\<close>

lemma byte_inject: "byte c = byte d \<longleftrightarrow> c = d"
  by (metis char_of_char)

lemma hex_value_hex_digit [simp]: "n < 16 \<Longrightarrow> hex_value (hex_digit n) = Some n"
  by (auto simp: hex_value_def hex_digit_def is_digit_def of_char_of take_bit_eq_mod)

lemma rune_size_ascii [simp]: "byte c < 0x80 \<Longrightarrow> rune_size (c # cs) = Some 1"
  by (simp add: rune_size_def rune_length_def)

lemma rune_length_bounds: "rune_length b \<le> 4"
  by (simp add: rune_length_def)

lemma rune_size_high:
  assumes "rune_size (c # cs) = Some n" and "\<not> byte c < 0x80"
  shows "\<forall>x \<in> set (take n (c # cs)). 0x80 \<le> byte x" and "2 \<le> n"
    and "rune_size (take n (c # cs) @ ys) = Some n"
proof -
  let ?m = "rune_length (byte c)"
  from assms have n: "n = ?m" "n \<noteq> 0" "n \<noteq> 1" "n \<le> length (c # cs)"
    and c1: "cont (fst (second_range (byte c))) (snd (second_range (byte c))) (cs ! 0)"
    and c2: "\<forall>x \<in> set (drop 1 (take (n - 1) cs)). cont 0x80 0xBF x"
    by (auto simp: rune_size_def Let_def not_less split: if_splits)
      (auto simp: rune_length_def split: if_splits)
  then obtain k where k: "n = Suc (Suc k)" by (cases n rule: nat.exhaust; cases "n - 1") auto
  with n(4) obtain d ds where cs: "cs = d # ds" by (cases cs) auto
  have "0x80 \<le> byte d" using c1 cs by (auto simp: cont_def second_range_def split: if_splits)
  moreover have "\<forall>x \<in> set (take k ds). 0x80 \<le> byte x" using c2 k cs by (auto simp: cont_def)
  ultimately show "\<forall>x \<in> set (take n (c # cs)). 0x80 \<le> byte x" using assms(2) k cs by auto
  show "2 \<le> n" using k by simp
  have len: "length (take k ds) = k" using n(4) k cs by simp
  have m: "rune_length (byte c) = Suc (Suc k)" using n(1) k by simp
  have "take n (c # cs) @ ys = c # d # (take k ds @ ys)" using k cs by simp
  moreover have "rune_size (c # d # (take k ds @ ys)) = Some n"
    using c1 c2 k cs len by (simp add: rune_size_def m)
  ultimately show "rune_size (take n (c # cs) @ ys) = Some n" by simp
qed

text \<open>A string without quotes, backslashes and control characters is scanned and read as it is.\<close>

definition plain :: "char \<Rightarrow> bool" where
  "plain c \<longleftrightarrow> c \<noteq> dquote \<and> c \<noteq> backslash \<and> 0x20 \<le> byte c"

lemma high_plain: "0x80 \<le> byte c \<Longrightarrow> plain c"
  by (auto simp: plain_def dquote_def backslash_def)

definition scanned :: "string \<Rightarrow> string \<times> string \<Rightarrow> string \<times> string" where
  "scanned p = (\<lambda>(raw, rest). (p @ raw, rest))"

lemma scanned_simps [simp]: "scanned p (raw, rest) = (p @ raw, rest)"
  "map_option (scanned []) x = x" "scanned p (scanned q y) = scanned (p @ q) y"
  by (auto simp: scanned_def split: prod.splits) (cases x, auto)

lemma scan_plain:
  "\<forall>c \<in> set xs. plain c \<Longrightarrow>
     scan_string (xs @ s) = map_option (scanned xs) (scan_string s)"
proof (induction xs)
  case Nil
  then show ?case by simp
next
  case (Cons x xs)
  then show ?case by (cases "scan_string s") (auto simp: plain_def scanned_def)
qed

lemma backslash_facts [simp]: "backslash \<noteq> dquote" "dquote \<noteq> backslash" "\<not> byte backslash < 0x20"
  "\<not> byte dquote < 0x20" "byte backslash = 92" "byte dquote = 34" "\<not> plain backslash" "\<not> plain dquote"
  by (simp_all add: backslash_def dquote_def plain_def)

lemma simple_escape_u [simp]: "simple_escape (CHR ''u'') = None"
  by (simp add: simple_escape_def backslash_def dquote_def)

lemma quote_ascii_cases:
  obtains (plain) "quote_ascii c = [c]" "plain c"
  | (simple) e where "quote_ascii c = [backslash, e]" "simple_escape e = Some c"
  | (hex) "quote_ascii c = backslash # CHR ''u'' # CHR ''0'' # CHR ''0'' # hex_digit (byte c div 16) # [hex_digit (byte c mod 16)]"
proof -
  consider "c = dquote \<or> c = backslash \<or> c = CHR 0x08 \<or> c = CHR 0x0C \<or> c = CHR 0x0A \<or> c = CHR 0x0D \<or> c = CHR 0x09"
    | "\<not> (c = dquote \<or> c = backslash \<or> c = CHR 0x08 \<or> c = CHR 0x0C \<or> c = CHR 0x0A \<or> c = CHR 0x0D \<or> c = CHR 0x09)"
      "byte c < 0x20 \<or> c = CHR ''<'' \<or> c = CHR ''>'' \<or> c = CHR ''&''"
    | "\<not> (c = dquote \<or> c = backslash \<or> c = CHR 0x08 \<or> c = CHR 0x0C \<or> c = CHR 0x0A \<or> c = CHR 0x0D \<or> c = CHR 0x09)"
      "\<not> (byte c < 0x20 \<or> c = CHR ''<'' \<or> c = CHR ''>'' \<or> c = CHR ''&'')"
    by blast
  then show thesis
  proof cases
    case 1
    then have "\<exists>e. quote_ascii c = [backslash, e] \<and> simple_escape e = Some c"
      by (elim disjE) (simp_all add: quote_ascii_def simple_escape_def dquote_def backslash_def)
    with simple show thesis by blast
  next
    case 2
    with hex show thesis by (simp add: quote_ascii_def)
  next
    case 3
    with plain show thesis by (simp add: quote_ascii_def plain_def)
  qed
qed

lemma scan_simple:
  "simple_escape e = Some x \<Longrightarrow>
     scan_string (backslash # e # s) = map_option (scanned [backslash, e]) (scan_string s)"
  by (cases "scan_string s") (auto simp: scanned_def)

lemma scan_quote_end [simp]: "scan_string (dquote # s) = Some ([], s)"
  by simp

lemma hex_plain: "hex_value c = Some v \<Longrightarrow> plain c"
  by (auto simp: hex_value_def is_digit_def plain_def backslash_def dquote_def split: if_splits)

lemma scan_u:
  assumes "hex4 h = Some r" "length h = 4"
  shows "scan_string (backslash # CHR ''u'' # h @ s) =
    map_option (scanned (backslash # CHR ''u'' # h)) (scan_string s)"
proof -
  obtain a b c d where h: "h = [a, b, c, d]" using assms(2)
    by (auto simp: length_Suc_conv numeral_eq_Suc)
  with assms(1) have "\<forall>x \<in> set h. plain x" by (auto dest: hex_plain split: option.splits)
  note p = scan_plain [OF this, of s]
  have "hex4 (h @ s) \<noteq> None" using assms(1) h by (simp split: option.splits)
  then show ?thesis using p by (cases "scan_string s") (auto simp: scanned_def)
qed

declare scan_string.simps(2) [simp del]

lemma byte_div_16 [simp]: "byte c div 16 < 16"
  using nat_of_char_less_256 [of c] by linarith

lemma hex4_byte [simp]:
  "hex4 (CHR ''0'' # CHR ''0'' # hex_digit (byte c div 16) # hex_digit (byte c mod 16) # s) = Some (byte c)"
  by (simp add: hex_value_def [of "CHR ''0''"] is_digit_def)

lemma scan_quote_ascii:
  "scan_string (quote_ascii c @ s) = map_option (scanned (quote_ascii c)) (scan_string s)"
proof (cases c rule: quote_ascii_cases)
  case plain
  then show ?thesis using scan_plain [of "[c]" s] by simp
next
  case (simple e)
  then show ?thesis using scan_simple [of e c s] by simp
next
  case hex
  show ?thesis
    using scan_u [OF hex4_byte [of c "[]"], of s] unfolding hex by simp
qed

lemma hex4_constants:
  "hex4 ''2028'' = Some 0x2028" "hex4 ''2029'' = Some 0x2029" "hex4 ''fffd'' = Some 0xFFFD"
  by (simp_all add: hex_value_def is_digit_def)

lemma line_separators_scan:
  assumes "map_of line_separators xs = Some e"
  shows "scan_string (e @ s) = map_option (scanned e) (scan_string s)"
proof -
  note h = hex4_constants(1,2)
  from assms have "e = backslash # CHR ''u'' # ''2028'' \<or> e = backslash # CHR ''u'' # ''2029''"
    by (auto simp: line_separators_def split: if_splits)
  then show ?thesis using scan_u [OF h(1), of s] scan_u [OF h(2), of s] by auto
qed

lemma quote_induct [case_names Nil low invalid rune]:
  assumes "P []"
    and "\<And>c cs. byte c < 0x80 \<Longrightarrow> P cs \<Longrightarrow> P (c # cs)"
    and "\<And>c cs. \<not> byte c < 0x80 \<Longrightarrow> rune_size (c # cs) = None \<Longrightarrow> P cs \<Longrightarrow> P (c # cs)"
    and "\<And>c cs n. \<not> byte c < 0x80 \<Longrightarrow> rune_size (c # cs) = Some n \<Longrightarrow> P (drop n (c # cs)) \<Longrightarrow> P (c # cs)"
  shows "P s"
proof (induction s rule: quote.induct)
  case (1 s)
  show ?case
  proof (cases s)
    case Nil
    with assms(1) show ?thesis by simp
  next
    case (Cons c cs)
    show ?thesis
    proof (cases "byte c < 0x80")
      case True
      with 1(1) [OF Cons True] assms(2) Cons show ?thesis by blast
    next
      case False
      show ?thesis
      proof (cases "rune_size s")
        case None
        with 1(2) [OF Cons False None] assms(3) Cons False show ?thesis by blast
      next
        case (Some n)
        with 1(3) [OF Cons False Some] assms(4) Cons False show ?thesis by blast
      qed
    qed
  qed
qed

lemma scan_quote: "scan_string (quote s @ dquote # rest) = Some (quote s, rest)"
proof (induction s rule: quote_induct)
  case Nil
  then show ?case by simp
next
  case (low c cs)
  then show ?case by (simp add: quote_low scan_quote_ascii)
next
  case (invalid c cs)
  note hex4_constants(3)
  then have "scan_string ((backslash # CHR ''u'' # ''fffd'') @ quote cs @ dquote # rest) =
      Some ((backslash # CHR ''u'' # ''fffd'') @ quote cs, rest)"
    using invalid(3) scan_u [of "''fffd''" _ "quote cs @ dquote # rest"] by simp
  then show ?case unfolding quote_invalid [OF invalid(1,2)] by simp
next
  case (rune c cs n)
  let ?t = "take n (c # cs)"
  from rune_size_high(1) [OF rune(2,1)] have "\<forall>x \<in> set ?t. plain x" by (blast dest: high_plain)
  note p = scan_plain [OF this, of "quote (drop n (c # cs)) @ dquote # rest"]
  show ?case
  proof (cases "map_of line_separators ?t")
    case None
    with p rune(3) show ?thesis unfolding quote_rune [OF rune(1,2)] by simp
  next
    case (Some e)
    from line_separators_scan [OF this, of "quote (drop n (c # cs)) @ dquote # rest"] rune(3) Some
    show ?thesis unfolding quote_rune [OF rune(1,2)] by simp
  qed
qed

lemma to_valid_simps:
  "to_valid [] = []"
  "rune_size (c # cs) = None \<Longrightarrow> to_valid (c # cs) = replacement @ to_valid cs"
  "rune_size (c # cs) = Some n \<Longrightarrow> to_valid (c # cs) = take n (c # cs) @ to_valid (drop n (c # cs))"
  by (simp_all add: to_valid.simps [of "[]"] to_valid.simps [of "c # cs"])

lemma unquote_Nil [simp]: "unquote [] = Some []"
  by (simp add: unquote.simps [of "[]"])

lemma append_single [simp]: "(@) [c] = (#) c"
  by (rule ext) simp

lemma unquote_plain:
  "plain c \<Longrightarrow> byte c < 0x80 \<Longrightarrow> unquote (c # s) = map_option (\<lambda>t. c # t) (unquote s)"
  by (subst unquote.simps) (auto simp: plain_def)

lemma unquote_simple:
  "simple_escape e = Some x \<Longrightarrow> unquote (backslash # e # s) = map_option (\<lambda>t. x # t) (unquote s)"
  by (subst unquote.simps) (auto simp: simple_escape_def dquote_def backslash_def split: if_splits)

lemma unquote_hex:
  assumes "hex4 h = Some r" "length h = 4" "\<not> is_surrogate r"
  shows "unquote (backslash # CHR ''u'' # h @ s) = map_option (\<lambda>t. EncodeRune r @ t) (unquote s)"
proof -
  obtain a b c d where h: "h = [a, b, c, d]" using assms(2)
    by (auto simp: length_Suc_conv numeral_eq_Suc)
  have "hex4 (h @ s) = Some r" using assms(1) h by simp
  then have "unquote_u (backslash # CHR ''u'' # h @ s) = Some (EncodeRune r, 6)"
    using assms(3) by (simp add: unquote_u_def getu4_def)
  moreover have "drop 6 (backslash # CHR ''u'' # h @ s) = s" using h by simp
  ultimately show ?thesis by (subst unquote.simps) simp
qed

lemma unquote_quote_ascii:
  assumes "byte c < 0x80"
  shows "unquote (quote_ascii c @ s) = map_option (\<lambda>t. c # t) (unquote s)"
proof (cases c rule: quote_ascii_cases)
  case plain
  with assms show ?thesis by (simp add: unquote_plain)
next
  case (simple e)
  then show ?thesis by (simp add: unquote_simple)
next
  case hex
  have "EncodeRune (byte c) = [c]" "\<not> is_surrogate (byte c)"
    using assms by (simp_all add: EncodeRune_def is_surrogate_def)
  with unquote_hex [OF hex4_byte [of c "[]"], of s] show ?thesis unfolding hex by simp
qed

lemma line_separators_unquote:
  assumes "map_of line_separators xs = Some e"
  shows "unquote (e @ s) = map_option (\<lambda>t. xs @ t) (unquote s)"
proof -
  note h = hex4_constants(1,2)
  have r: "EncodeRune 0x2028 = [CHR 0xE2, CHR 0x80, CHR 0xA8]" "EncodeRune 0x2029 = [CHR 0xE2, CHR 0x80, CHR 0xA9]"
    "\<not> is_surrogate 0x2028" "\<not> is_surrogate 0x2029"
    by (simp_all add: EncodeRune_def is_surrogate_def char_of_def bit_iff_odd)
  from assms consider
      "e = backslash # CHR ''u'' # ''2028''" "xs = [CHR 0xE2, CHR 0x80, CHR 0xA8]"
    | "e = backslash # CHR ''u'' # ''2029''" "xs = [CHR 0xE2, CHR 0x80, CHR 0xA9]"
    by (auto simp: line_separators_def split: if_splits)
  then show ?thesis
    by cases (use unquote_hex [OF h(1) _ r(3), of s] unquote_hex [OF h(2) _ r(4), of s] r(1,2) in simp_all)
qed

lemma unquote_rune:
  assumes "rune_size (c # cs) = Some n" "\<not> byte c < 0x80"
  shows "unquote (take n (c # cs) @ s) = map_option (\<lambda>t. take n (c # cs) @ t) (unquote s)"
proof -
  let ?t = "take n (c # cs)"
  have n: "length ?t = n" "0 < n" using rune_size_bounds [OF assms(1)] by auto
  then obtain xs where xs: "?t @ s = c # xs" by (cases n) auto
  have "rune_size (?t @ s) = Some n" using rune_size_high(3) [OF assms] .
  moreover have "plain c" using assms(2) by (intro high_plain) simp
  moreover have "take n (?t @ s) = ?t" "drop n (?t @ s) = s" using n by auto
  ultimately show ?thesis unfolding xs by (subst unquote.simps) (simp add: plain_def)
qed

text \<open>The text written for any string is read back as that string with invalid bytes replaced.\<close>

lemma unquote_quote: "unquote (quote s) = Some (to_valid s)"
proof (induction s rule: quote_induct)
  case Nil
  then show ?case by (simp add: to_valid_simps)
next
  case (low c cs)
  then show ?case by (simp add: quote_low unquote_quote_ascii to_valid_simps)
next
  case (invalid c cs)
  note h = hex4_constants(3)
  have r: "\<not> is_surrogate 0xFFFD" "EncodeRune 0xFFFD = replacement"
    by (simp_all add: EncodeRune_def is_surrogate_def replacement_def char_of_def bit_iff_odd)
  from unquote_hex [OF h _ r(1), of "quote cs"] invalid show ?case
    by (simp add: quote_invalid [OF invalid(1,2)] to_valid_simps r(2))
next
  case (rune c cs n)
  show ?case
  proof (cases "map_of line_separators (take n (c # cs))")
    case None
    with rune unquote_rune [OF rune(2,1)] show ?thesis
      unfolding quote_rune [OF rune(1,2)] to_valid_simps(3) [OF rune(2)] by simp
  next
    case (Some e)
    from line_separators_unquote [OF this] rune(3) Some show ?thesis
      unfolding quote_rune [OF rune(1,2)] to_valid_simps(3) [OF rune(2)] by simp
  qed
qed

end
