(* ===== verification/Json.thy ===== *)
theory Json
  imports JsonString
begin

text \<open>
  JSON values: the grammar of \<open>encoding/json\<close>'s scanner with its nesting limit, and the compact
  and the indented printer. A parsed value keeps the text of its literals, which the typed
  decoders of the codec interpret. What either printer writes is read back.
\<close>

section \<open>Numbers\<close>

definition scan_digits :: "string \<Rightarrow> string \<times> string" where
  "scan_digits s = (takeWhile is_digit s, dropWhile is_digit s)"

definition scan_frac :: "string \<Rightarrow> (string \<times> string) option" where
  "scan_frac s =
     (case s of
        [] \<Rightarrow> Some ([], [])
      | c # s' \<Rightarrow>
          if c \<noteq> CHR ''.'' then Some ([], s)
          else (case scan_digits s' of (ds, rest) \<Rightarrow> if ds = [] then None else Some (c # ds, rest)))"

definition scan_sign :: "string \<Rightarrow> string \<times> string" where
  "scan_sign s =
     (case s of
        [] \<Rightarrow> ([], [])
      | c # s' \<Rightarrow> if c = CHR ''+'' \<or> c = CHR ''-'' then ([c], s') else ([], s))"

definition scan_exp :: "string \<Rightarrow> (string \<times> string) option" where
  "scan_exp s =
     (case s of
        [] \<Rightarrow> Some ([], [])
      | c # s' \<Rightarrow>
          if c \<noteq> CHR ''e'' \<and> c \<noteq> CHR ''E'' then Some ([], s)
          else
            (case scan_sign s' of (sg, s2) \<Rightarrow>
              (case scan_digits s2 of (ds, rest) \<Rightarrow>
                if ds = [] then None else Some (c # sg @ ds, rest))))"

definition scan_int :: "string \<Rightarrow> (string \<times> string) option" where
  "scan_int s =
     (case s of
        [] \<Rightarrow> None
      | c # s' \<Rightarrow>
          if c = CHR ''0'' then Some ([c], s')
          else if is_digit c then Some (scan_digits s) else None)"

definition scan_number :: "string \<Rightarrow> (string \<times> string) option" where
  "scan_number s =
     (let (neg, s1) = (case s of c # s' \<Rightarrow> if c = CHR ''-'' then ([c], s') else ([], s) | [] \<Rightarrow> ([], [])) in
      (case scan_int s1 of
         None \<Rightarrow> None
       | Some (i, s2) \<Rightarrow>
           (case scan_frac s2 of
              None \<Rightarrow> None
            | Some (f, s3) \<Rightarrow>
                (case scan_exp s3 of
                   None \<Rightarrow> None
                 | Some (e, rest) \<Rightarrow> Some (neg @ i @ f @ e, rest)))))"

section \<open>Values\<close>

datatype jval =
  V_Null
| V_Bool bool
| V_Num string
| V_Str string
| V_Arr "jval list"
| V_Obj "(string \<times> jval) list"

text \<open>
  The parser. \<open>d\<close> is the nesting that is still allowed; \<open>n\<close> bounds the number of calls and
  is proved irrelevant once it is twice the length of the text.
\<close>

definition literal :: "string \<Rightarrow> jval \<Rightarrow> string \<Rightarrow> (jval \<times> string) option" where
  "literal w v s = (if HasPrefix s w then Some (v, drop (length w) s) else None)"

fun parse_value :: "nat \<Rightarrow> nat \<Rightarrow> string \<Rightarrow> (jval \<times> string) option"
  and parse_elems :: "nat \<Rightarrow> nat \<Rightarrow> string \<Rightarrow> (jval list \<times> string) option"
  and parse_members :: "nat \<Rightarrow> nat \<Rightarrow> string \<Rightarrow> ((string \<times> jval) list \<times> string) option"
where
  "parse_value 0 d s = None"
| "parse_value (Suc n) d s =
     (case skip_space s of
        [] \<Rightarrow> None
      | c # s' \<Rightarrow>
          if c = dquote then map_option (\<lambda>(raw, rest). (V_Str raw, rest)) (scan_string s')
          else if c = CHR ''['' then
            if d = 0 then None
            else if HasPrefix (skip_space s') '']'' then Some (V_Arr [], tl (skip_space s'))
            else map_option (\<lambda>(vs, rest). (V_Arr vs, rest)) (parse_elems n (d - 1) s')
          else if c = CHR ''{'' then
            if d = 0 then None
            else if HasPrefix (skip_space s') ''}'' then Some (V_Obj [], tl (skip_space s'))
            else map_option (\<lambda>(ms, rest). (V_Obj ms, rest)) (parse_members n (d - 1) s')
          else if c = CHR ''t'' then literal ''true'' (V_Bool True) (c # s')
          else if c = CHR ''f'' then literal ''false'' (V_Bool False) (c # s')
          else if c = CHR ''n'' then literal ''null'' V_Null (c # s')
          else map_option (\<lambda>(l, rest). (V_Num l, rest)) (scan_number (c # s')))"
| "parse_elems 0 d s = None"
| "parse_elems (Suc n) d s =
     (case parse_value n d s of
        None \<Rightarrow> None
      | Some (v, rest) \<Rightarrow>
          (case skip_space rest of
             [] \<Rightarrow> None
           | c # rest' \<Rightarrow>
               if c = CHR '','' then map_option (\<lambda>(vs, r). (v # vs, r)) (parse_elems n d rest')
               else if c = CHR '']'' then Some ([v], rest') else None))"
| "parse_members 0 d s = None"
| "parse_members (Suc n) d s =
     (case skip_space s of
        [] \<Rightarrow> None
      | q # s' \<Rightarrow>
          if q \<noteq> dquote then None
          else
            (case scan_string s' of
               None \<Rightarrow> None
             | Some (k, s1) \<Rightarrow>
                 (case skip_space s1 of
                    [] \<Rightarrow> None
                  | co # s2 \<Rightarrow>
                      if co \<noteq> CHR '':'' then None
                      else
                        (case parse_value n d s2 of
                           None \<Rightarrow> None
                         | Some (v, rest) \<Rightarrow>
                             (case skip_space rest of
                                [] \<Rightarrow> None
                              | c # rest' \<Rightarrow>
                                  if c = CHR '','' then
                                    map_option (\<lambda>(ms, r). ((k, v) # ms, r)) (parse_members n d rest')
                                  else if c = CHR ''}'' then Some ([(k, v)], rest')
                                  else None)))))"

definition maxNestingDepth :: nat where "maxNestingDepth = 10000"

definition parse_text :: "string \<Rightarrow> jval option" where
  "parse_text s =
     (case parse_value (2 * length s) maxNestingDepth s of
        None \<Rightarrow> None
      | Some (v, rest) \<Rightarrow> if skip_space rest = [] then Some v else None)"

section \<open>Printers\<close>

text \<open>
  \<open>nl k\<close> is the white space before an item at depth \<open>k\<close>, \<open>sp\<close> what follows a colon: both
  empty for \<open>Encoder.Encode\<close>, a line break with indentation and a blank for \<open>MarshalIndent\<close>.
\<close>

fun print_value :: "(nat \<Rightarrow> string) \<Rightarrow> string \<Rightarrow> nat \<Rightarrow> jval \<Rightarrow> string"
  and print_elems :: "(nat \<Rightarrow> string) \<Rightarrow> string \<Rightarrow> nat \<Rightarrow> jval list \<Rightarrow> string"
  and print_members :: "(nat \<Rightarrow> string) \<Rightarrow> string \<Rightarrow> nat \<Rightarrow> (string \<times> jval) list \<Rightarrow> string"
where
  "print_value nl sp k V_Null = ''null''"
| "print_value nl sp k (V_Bool b) = (if b then ''true'' else ''false'')"
| "print_value nl sp k (V_Num l) = l"
| "print_value nl sp k (V_Str raw) = dquote # raw @ [dquote]"
| "print_value nl sp k (V_Arr vs) =
     (if vs = [] then ''[]'' else ''['' @ print_elems nl sp (Suc k) vs @ nl k @ '']'')"
| "print_value nl sp k (V_Obj ms) =
     (if ms = [] then ''{}'' else ''{'' @ print_members nl sp (Suc k) ms @ nl k @ ''}'')"
| "print_elems nl sp k [] = []"
| "print_elems nl sp k (v # vs) =
     nl k @ print_value nl sp k v @ (if vs = [] then [] else '','' @ print_elems nl sp k vs)"
| "print_members nl sp k [] = []"
| "print_members nl sp k ((key, v) # ms) =
     nl k @ dquote # key @ dquote # CHR '':'' # sp @ print_value nl sp k v @
     (if ms = [] then [] else '','' @ print_members nl sp k ms)"

definition compact :: "jval \<Rightarrow> string" where
  "compact v = print_value (\<lambda>k. []) [] 0 v"

definition indented :: "jval \<Rightarrow> string" where
  "indented v = print_value (\<lambda>k. CHR 0x0A # replicate (2 * k) (CHR 0x20)) [CHR 0x20] 0 v"

section \<open>The number of calls is irrelevant\<close>

lemma skip_space_length: "length (skip_space s) \<le> length s"
  by (simp add: skip_space_def length_dropWhile_le)

lemma skip_space_Cons: "skip_space s = c # s' \<Longrightarrow> length s' < length s"
  using skip_space_length [of s] by simp

lemma scan_string_length: "scan_string s = Some (raw, rest) \<Longrightarrow> length rest < length s"
  by (induction s arbitrary: raw rest rule: scan_string.induct)
     (fastforce simp: scan_string.simps split: if_splits list.splits)+

lemma scan_int_length: "scan_int s = Some (i, rest) \<Longrightarrow> length rest < length s"
  by (auto simp: scan_int_def scan_digits_def split: list.splits if_splits
      intro: le_less_trans [OF length_dropWhile_le])

lemma scan_frac_length: "scan_frac s = Some (i, rest) \<Longrightarrow> length rest \<le> length s"
  by (auto simp: scan_frac_def scan_digits_def split: list.splits if_splits
      intro: le_trans [OF length_dropWhile_le])

lemma scan_exp_length: "scan_exp s = Some (i, rest) \<Longrightarrow> length rest \<le> length s"
  by (auto simp: scan_exp_def scan_sign_def scan_digits_def split: list.splits if_splits
      intro: le_trans [OF length_dropWhile_le])

lemma scan_number_length: "scan_number s = Some (i, rest) \<Longrightarrow> length rest < length s"
  by (auto simp: scan_number_def split: list.splits if_splits option.splits
      dest!: scan_int_length scan_frac_length scan_exp_length)

lemma literal_length: "w \<noteq> [] \<Longrightarrow> literal w v s = Some (x, rest) \<Longrightarrow> length rest < length s"
  by (auto simp: literal_def HasPrefix_def split: if_splits)
     (metis diff_less length_0_conv length_greater_0_conv take_Nil)

lemma parse_length:
  "parse_value n d s = Some (v, rest) \<Longrightarrow> length rest < length s"
  "parse_elems n d s = Some (vs, rest) \<Longrightarrow> length rest < length s"
  "parse_members n d s = Some (ms, rest) \<Longrightarrow> length rest < length s"
proof (induction n d s and n d s and n d s arbitrary: v rest and vs rest and ms rest
    rule: parse_value_parse_elems_parse_members.induct)
  case (2 n d s)
  from 2(3) obtain c s' where s: "skip_space s = c # s'"
    by (auto split: list.splits)
  have tl: "length (skip_space s') - Suc 0 < Suc (length s')"
    using skip_space_length [of s'] by simp
  have "length rest < length (c # s')"
    using 2 s by (auto split: if_splits dest!: scan_string_length scan_number_length intro: tl less_SucI
        dest: literal_length [rotated])
  also have "\<dots> \<le> length s" using s skip_space_length [of s] by simp
  finally show ?case .
next
  case (4 n d s)
  then show ?case
    by (auto split: option.splits list.splits if_splits dest!: skip_space_Cons) fastforce+
next
  case (6 n d s)
  then show ?case
    by (auto split: option.splits list.splits if_splits dest!: skip_space_Cons scan_string_length) fastforce+
qed simp_all

lemma parse_enough:
  "2 * length s \<le> n \<Longrightarrow> n \<le> m \<Longrightarrow> parse_value m d s = parse_value n d s"
  "2 * length s + 1 \<le> n \<Longrightarrow> n \<le> m \<Longrightarrow> parse_elems m d s = parse_elems n d s"
  "2 * length s + 1 \<le> n \<Longrightarrow> n \<le> m \<Longrightarrow> parse_members m d s = parse_members n d s"
proof (induction n d s and n d s and n d s arbitrary: m and m and m
    rule: parse_value_parse_elems_parse_members.induct)
  case (1 d s)
  then show ?case by (cases m) (simp_all add: skip_space_def)
next
  case (2 n d s)
  from 2(4) obtain m' where m: "m = Suc m'" "n \<le> m'" by (cases m) auto
  show ?case
  proof (cases "skip_space s")
    case Nil
    then show ?thesis by (simp add: m)
  next
    case (Cons c s')
    then have len: "2 * length s' + 1 \<le> n" using skip_space_Cons [OF Cons] 2(3) by simp
    have q: "CHR ''['' \<noteq> dquote" "CHR ''{'' \<noteq> dquote" by (simp_all add: dquote_def)
    consider (arr) "c = CHR ''[''" | (obj) "c = CHR ''{''" | (other) "c \<noteq> CHR ''[''" "c \<noteq> CHR ''{''" by blast
    then show ?thesis
    proof cases
      case arr
      show ?thesis
      proof (cases "d = 0 \<or> HasPrefix (skip_space s') '']''")
        case True
        then show ?thesis unfolding m(1) parse_value.simps Cons list.case arr using q by auto
      next
        case False
        with 2(1) [OF Cons _ arr _ _ len m(2)] arr q show ?thesis
          unfolding m(1) parse_value.simps Cons list.case by simp
      qed
    next
      case obj
      show ?thesis
      proof (cases "d = 0 \<or> HasPrefix (skip_space s') ''}''")
        case True
        then show ?thesis unfolding m(1) parse_value.simps Cons list.case obj using q by auto
      next
        case False
        with 2(2) [OF Cons _ _ obj _ _ len m(2)] obj q show ?thesis
          unfolding m(1) parse_value.simps Cons list.case by simp
      qed
    next
      case other
      then show ?thesis unfolding m(1) parse_value.simps Cons list.case by (simp only: if_False)
    qed
  qed
next
  case (4 n d s)
  from 4(4) obtain m' where m: "m = Suc m'" "n \<le> m'" by (cases m) auto
  have v: "parse_value m' d s = parse_value n d s" by (rule 4(1)) (use 4(3) m in simp_all)
  show ?case
  proof (cases "parse_value n d s")
    case None
    then show ?thesis by (simp add: m v)
  next
    case (Some p)
    obtain x rest where p: "p = (x, rest)" by fastforce
    show ?thesis
    proof (cases "skip_space rest")
      case Nil
      then show ?thesis by (simp add: m v Some p)
    next
      case (Cons c rest')
      have "2 * length rest' + 1 \<le> n"
        using parse_length(1) [of n d s x rest] Some p skip_space_Cons [OF Cons] 4(3) by simp
      from 4(2) [OF Some p [symmetric] Cons _ this m(2)] show ?thesis by (simp add: m v Some p Cons)
    qed
  qed
next
  case (6 n d s)
  from 6(4) obtain m' where m: "m = Suc m'" "n \<le> m'" by (cases m) auto
  show ?case
  proof (cases "\<exists>s' k s1 s2. skip_space s = dquote # s' \<and> scan_string s' = Some (k, s1) \<and> skip_space s1 = CHR '':'' # s2")
    case False
    then show ?thesis by (auto simp: m(1) split: list.splits option.splits)
  next
    case True
    then obtain s' k s1 s2 where s: "skip_space s = dquote # s'" "scan_string s' = Some (k, s1)"
      "skip_space s1 = CHR '':'' # s2" by blast
    have len: "length s2 + 3 \<le> length s"
      using skip_space_Cons [OF s(1)] scan_string_length [OF s(2)] skip_space_Cons [OF s(3)] by simp
    have v: "parse_value m' d s2 = parse_value n d s2"
      by (rule 6(1) [OF s(1) _ s(2) refl s(3)]) (use 6(3) len m(2) in simp_all)
    show ?thesis
    proof (cases "parse_value n d s2")
      case None
      then show ?thesis by (simp add: m v s)
    next
      case (Some p)
      obtain x rest where p: "p = (x, rest)" by fastforce
      show ?thesis
      proof (cases "skip_space rest")
        case Nil
        then show ?thesis by (simp add: m v Some p s)
      next
        case (Cons c rest')
        have "2 * length rest' + 1 \<le> n"
          using parse_length(1) [of n d s2 x rest] Some p skip_space_Cons [OF Cons] 6(3) len by simp
        from 6(2) [OF s(1) _ s(2) refl s(3) _ Some p [symmetric] Cons _ this m(2)] show ?thesis
          by (simp add: m v Some p Cons s)
      qed
    qed
  qed
qed simp_all

lemma parse_value_enough: "2 * length s \<le> m \<Longrightarrow> parse_value m d s = parse_value (2 * length s) d s"
  by (rule parse_enough(1)) simp_all

section \<open>What is printed is parsed\<close>

definition spaces :: "string \<Rightarrow> bool" where
  "spaces s \<longleftrightarrow> (\<forall>c \<in> set s. is_space c)"

definition value_end :: "string \<Rightarrow> bool" where
  "value_end s \<longleftrightarrow> (\<forall>c s'. s = c # s' \<longrightarrow> \<not> is_digit c \<and> c \<notin> {CHR ''.'', CHR ''e'', CHR ''E''})"

definition wf_raw :: "string \<Rightarrow> bool" where
  "wf_raw raw \<longleftrightarrow> (\<forall>rest. scan_string (raw @ dquote # rest) = Some (raw, rest))"

definition wf_num :: "string \<Rightarrow> bool" where
  "wf_num l \<longleftrightarrow> (\<exists>c l'. l = c # l' \<and> (c = CHR ''-'' \<or> is_digit c)) \<and>
     (\<forall>rest. value_end rest \<longrightarrow> scan_number (l @ rest) = Some (l, rest))"

fun wf_value :: "jval \<Rightarrow> bool" where
  "wf_value (V_Num l) \<longleftrightarrow> wf_num l"
| "wf_value (V_Str raw) \<longleftrightarrow> wf_raw raw"
| "wf_value (V_Arr vs) \<longleftrightarrow> (\<forall>v \<in> set vs. wf_value v)"
| "wf_value (V_Obj ms) \<longleftrightarrow> (\<forall>(key, v) \<in> set ms. wf_raw key \<and> wf_value v)"
| "wf_value _ \<longleftrightarrow> True"

fun jdepth :: "jval \<Rightarrow> nat" where
  "jdepth (V_Arr vs) = Suc (fold max (map jdepth vs) 0)"
| "jdepth (V_Obj ms) = Suc (fold max (map (\<lambda>(key, v). jdepth v) ms) 0)"
| "jdepth _ = 0"

fun jsize :: "jval \<Rightarrow> nat" where
  "jsize (V_Arr vs) = Suc (Suc (sum_list (map (\<lambda>v. Suc (jsize v)) vs)))"
| "jsize (V_Obj ms) = Suc (Suc (sum_list (map (\<lambda>(key, v). Suc (jsize v)) ms)))"
| "jsize _ = 1"

lemma fold_max_ge: "x \<le> fold max xs (x :: nat)" and fold_max_mem: "y \<in> set xs \<Longrightarrow> y \<le> fold max xs (x :: nat)"
proof (induction xs arbitrary: x)
  case (Cons z zs)
  {
    case 1
    show ?case using Cons(1) [of "max z x"] by simp
  next
    case 2
    then show ?case using Cons(1) [of "max z x"] Cons(2) [of "max z x"] by fastforce
  }
qed simp_all

lemma jdepth_elem: "jdepth (V_Arr vs) \<le> Suc d \<Longrightarrow> v \<in> set vs \<Longrightarrow> jdepth v \<le> d"
  using fold_max_mem [of "jdepth v" "map jdepth vs" 0] by simp

lemma jdepth_member: "jdepth (V_Obj ms) \<le> Suc d \<Longrightarrow> (key, v) \<in> set ms \<Longrightarrow> jdepth v \<le> d"
  using fold_max_mem [of "jdepth v" "map (\<lambda>(key, v). jdepth v) ms" 0] by force

lemma skip_spaces [simp]: "spaces ws \<Longrightarrow> skip_space (ws @ s) = skip_space s"
  by (simp add: spaces_def skip_space_def)

lemma skip_space_nonspace [simp]: "\<not> is_space c \<Longrightarrow> skip_space (c # s) = c # s"
  by (simp add: skip_space_def)

lemma is_space_simps [simp]:
  "\<not> is_space dquote" "\<not> is_space (CHR '','')" "\<not> is_space (CHR '':'')" "\<not> is_space (CHR '']'')"
  "\<not> is_space (CHR ''}'')" "\<not> is_space (CHR ''['')" "\<not> is_space (CHR ''{'')" "\<not> is_space (CHR ''t'')"
  "\<not> is_space (CHR ''f'')" "\<not> is_space (CHR ''n'')" "\<not> is_space (CHR ''-'')"
  by (simp_all add: is_space_def dquote_def)

lemma is_digit_not_space: "is_digit c \<Longrightarrow> \<not> is_space c"
  by (auto simp: is_digit_def is_space_def)

lemma print_head:
  assumes "wf_value v"
  shows "\<exists>c s. print_value nl sp k v = c # s \<and> \<not> is_space c \<and> c \<noteq> CHR '']''"
proof (cases v)
  case (V_Num l)
  with assms obtain c l' where "l = c # l'" "c = CHR ''-'' \<or> is_digit c" by (auto simp: wf_num_def)
  with V_Num show ?thesis by (auto dest: is_digit_not_space) (auto simp: is_digit_def)
next
  case (V_Bool b)
  then show ?thesis by (cases b) simp_all
qed (auto simp: dquote_def is_space_def)

lemma value_end_simps [simp]:
  "value_end []" "value_end (CHR '','' # s)" "value_end (CHR '']'' # s)" "value_end (CHR ''}'' # s)"
  by (simp_all add: value_end_def is_digit_def)

lemma value_end_spaces: "spaces ws \<Longrightarrow> value_end s \<Longrightarrow> value_end (ws @ s)"
  by (cases ws) (auto simp: value_end_def spaces_def is_space_def is_digit_def)

lemma literal_here: "literal w v (w @ s) = Some (v, s)"
  by (simp add: literal_def HasPrefix_def)

lemma parse_atoms:
  assumes "spaces ws"
  shows "parse_value (Suc n) d (ws @ ''null'' @ rest) = Some (V_Null, rest)"
    and "parse_value (Suc n) d (ws @ ''true'' @ rest) = Some (V_Bool True, rest)"
    and "parse_value (Suc n) d (ws @ ''false'' @ rest) = Some (V_Bool False, rest)"
    and "wf_raw raw \<Longrightarrow> parse_value (Suc n) d (ws @ (dquote # raw @ [dquote]) @ rest) = Some (V_Str raw, rest)"
    and "wf_num l \<Longrightarrow> value_end rest \<Longrightarrow> parse_value (Suc n) d (ws @ l @ rest) = Some (V_Num l, rest)"
proof -
  have q: "CHR ''t'' \<noteq> dquote" "CHR ''f'' \<noteq> dquote" "CHR ''n'' \<noteq> dquote" by (simp_all add: dquote_def)
  show "parse_value (Suc n) d (ws @ ''null'' @ rest) = Some (V_Null, rest)"
    using assms q literal_here [of "''null''" V_Null rest] by simp
  show "parse_value (Suc n) d (ws @ ''true'' @ rest) = Some (V_Bool True, rest)"
    using assms q literal_here [of "''true''" "V_Bool True" rest] by simp
  show "parse_value (Suc n) d (ws @ ''false'' @ rest) = Some (V_Bool False, rest)"
    using assms q literal_here [of "''false''" "V_Bool False" rest] by simp
  show "wf_raw raw \<Longrightarrow> parse_value (Suc n) d (ws @ (dquote # raw @ [dquote]) @ rest) = Some (V_Str raw, rest)"
    using assms by (simp add: wf_raw_def)
  assume num: "wf_num l" "value_end rest"
  then obtain c l' where l0: "l = c # l'" "c = CHR ''-'' \<or> is_digit c" unfolding wf_num_def by blast
  from num have "scan_number (l @ rest) = Some (l, rest)" unfolding wf_num_def by blast
  with l0 have l: "l = c # l'" "c = CHR ''-'' \<or> is_digit c" "scan_number (c # l' @ rest) = Some (l, rest)" by simp_all
  then have "\<not> is_space c" "c \<noteq> dquote" "c \<noteq> CHR ''[''" "c \<noteq> CHR ''{''" "c \<noteq> CHR ''t''"
      "c \<noteq> CHR ''f''" "c \<noteq> CHR ''n''"
    by (auto simp: is_space_def is_digit_def dquote_def)
  with l assms show "parse_value (Suc n) d (ws @ l @ rest) = Some (V_Num l, rest)" by simp
qed

lemma parse_members_item:
  assumes "spaces ws" "spaces sp" "wf_raw key" "spaces ws'"
    and "parse_value n d (sp @ s) = Some (v, ws' @ c # rest)" "c = CHR '','' \<or> c = CHR ''}''"
  shows "parse_members (Suc n) d (ws @ dquote # key @ dquote # CHR '':'' # sp @ s) =
    (if c = CHR '','' then map_option (\<lambda>(ms, r). ((key, v) # ms, r)) (parse_members n d rest)
     else Some ([(key, v)], rest))"
proof -
  have "scan_string (key @ dquote # CHR '':'' # sp @ s) = Some (key, CHR '':'' # sp @ s)"
    using assms(3) by (simp add: wf_raw_def)
  with assms show ?thesis by auto
qed

lemma parse_elems_item:
  assumes "parse_value n d s = Some (v, ws' @ c # rest)" "spaces ws'" "c = CHR '','' \<or> c = CHR '']''"
  shows "parse_elems (Suc n) d s =
    (if c = CHR '','' then map_option (\<lambda>(vs, r). (v # vs, r)) (parse_elems n d rest) else Some ([v], rest))"
  using assms by auto

lemma parse_print:
  shows "\<forall>k. spaces (nl k) \<Longrightarrow> spaces sp \<Longrightarrow> wf_value v \<Longrightarrow> jdepth v \<le> d \<Longrightarrow> jsize v \<le> n \<Longrightarrow>
      spaces ws \<Longrightarrow> value_end rest \<Longrightarrow>
      parse_value n d (ws @ print_value nl sp k v @ rest) = Some (v, rest)"
    and "\<forall>k. spaces (nl k) \<Longrightarrow> spaces sp \<Longrightarrow> vs \<noteq> [] \<Longrightarrow> \<forall>v \<in> set vs. wf_value v \<and> jdepth v \<le> d \<Longrightarrow>
      Suc (sum_list (map (\<lambda>v. Suc (jsize v)) vs)) \<le> n \<Longrightarrow>
      parse_elems n d (print_elems nl sp k vs @ nl k' @ CHR '']'' # rest) = Some (vs, rest)"
    and "\<forall>k. spaces (nl k) \<Longrightarrow> spaces sp \<Longrightarrow> ms \<noteq> [] \<Longrightarrow>
      \<forall>(key, v) \<in> set ms. wf_raw key \<and> wf_value v \<and> jdepth v \<le> d \<Longrightarrow>
      Suc (sum_list (map (\<lambda>(key, v). Suc (jsize v)) ms)) \<le> n \<Longrightarrow>
      parse_members n d (print_members nl sp k ms @ nl k' @ CHR ''}'' # rest) = Some (ms, rest)"
proof (induction nl sp k v and nl sp k vs and nl sp k ms arbitrary: n d ws rest and n d k' rest and n d k' rest
    rule: print_value_print_elems_print_members.induct)
  case (1 nl sp k)
  then show ?case by (cases n) (simp_all add: parse_atoms(1) del: parse_value.simps append.simps)
next
  case (2 nl sp k b)
  then show ?case
    by (cases n; cases b) (simp_all add: parse_atoms(2,3) del: parse_value.simps append.simps)
next
  case (3 nl sp k l)
  then show ?case by (cases n) (simp_all add: parse_atoms(5) del: parse_value.simps append.simps)
next
  case (4 nl sp k raw)
  then show ?case by (cases n) (simp_all add: parse_atoms(4) del: parse_value.simps append.simps)
next
  case (5 nl sp k vs)
  from 5(6) obtain n' where n: "n = Suc n'" by (cases n) auto
  from 5(5) obtain d' where d: "d = Suc d'" by (cases d) auto
  show ?case
  proof (cases vs)
    case Nil
    with 5(7) show ?thesis by (simp add: n d dquote_def HasPrefix_def)
  next
    case (Cons v vs')
    let ?s = "print_elems nl sp (Suc k) vs @ nl k @ CHR '']'' # rest"
    have "\<forall>v \<in> set vs. wf_value v \<and> jdepth v \<le> d'" using 5(4,5) jdepth_elem d by auto
    with 5(1) [of d' n' k rest] 5(2,3,6) Cons n have elems: "parse_elems n' d' ?s = Some (vs, rest)" by simp
    have "\<not> HasPrefix (skip_space ?s) '']''"
    proof -
      have "wf_value v" using 5(4) Cons by simp
      from print_head [OF this, of nl sp "Suc k"] obtain c t where
        "print_value nl sp (Suc k) v = c # t" "\<not> is_space c" "c \<noteq> CHR '']''" by blast
      with 5(2) Cons show ?thesis by (simp add: HasPrefix_def)
    qed
    with elems 5(7) Cons show ?thesis by (simp add: n d dquote_def)
  qed
next
  case (6 nl sp k ms)
  from 6(6) obtain n' where n: "n = Suc n'" by (cases n) auto
  from 6(5) obtain d' where d: "d = Suc d'" by (cases d) auto
  show ?case
  proof (cases ms)
    case Nil
    with 6(7) show ?thesis by (simp add: n d dquote_def HasPrefix_def)
  next
    case (Cons m ms')
    let ?s = "print_members nl sp (Suc k) ms @ nl k @ CHR ''}'' # rest"
    have "\<forall>(key, v) \<in> set ms. wf_raw key \<and> wf_value v \<and> jdepth v \<le> d'" using 6(4,5) jdepth_member d by auto
    with 6(1) [of d' n' k rest] 6(2,3,6) Cons n have members: "parse_members n' d' ?s = Some (ms, rest)" by simp
    have "dquote \<noteq> CHR ''}''" by (simp add: dquote_def)
    then have "\<not> HasPrefix (skip_space ?s) ''}''"
      using 6(2) Cons by (cases m) (simp add: HasPrefix_def)
    with members 6(7) Cons show ?thesis by (simp add: n d dquote_def)
  qed
next
  case (8 nl sp k v vs)
  from 8(7) obtain n' where n: "n = Suc n'" by (cases n) auto
  have v: "wf_value v" "jdepth v \<le> d" "jsize v \<le> n'" using 8(6,7) n by auto
  show ?case
  proof (cases "vs = []")
    case True
    have "parse_value n' d (nl k @ print_value nl sp k v @ nl k' @ CHR '']'' # rest) =
        Some (v, nl k' @ CHR '']'' # rest)"
      using 8(3,4) v by (intro 8(1)) (simp_all add: value_end_spaces)
    from parse_elems_item [OF this] 8(3) True show ?thesis by (simp add: n)
  next
    case False
    have "parse_value n' d (nl k @ print_value nl sp k v @ CHR '','' # print_elems nl sp k vs @ nl k' @ CHR '']'' # rest) =
        Some (v, [] @ CHR '','' # print_elems nl sp k vs @ nl k' @ CHR '']'' # rest)"
      using 8(3,4) v by (subst 8(1)) simp_all
    from parse_elems_item [OF this] 8(2) [of d n' k' rest] 8(3,4,6,7) False n show ?thesis
      by (simp add: spaces_def)
  qed
next
  case (10 nl sp k key v ms)
  from 10(7) obtain n' where n: "n = Suc n'" by (cases n) auto
  have v: "wf_raw key" "wf_value v" "jdepth v \<le> d" "jsize v \<le> n'" using 10(6,7) n by auto
  show ?case
  proof (cases "ms = []")
    case True
    have "parse_value n' d (sp @ print_value nl sp k v @ nl k' @ CHR ''}'' # rest) =
        Some (v, nl k' @ CHR ''}'' # rest)"
      using 10(3,4) v by (intro 10(1)) (simp_all add: value_end_spaces)
    from parse_members_item [OF _ 10(4) v(1) _ this] 10(3) True show ?thesis
      by (simp add: n del: parse_members.simps)
  next
    case False
    have "parse_value n' d (sp @ print_value nl sp k v @ CHR '','' # print_members nl sp k ms @ nl k' @ CHR ''}'' # rest) =
        Some (v, [] @ CHR '','' # print_members nl sp k ms @ nl k' @ CHR ''}'' # rest)"
      using 10(3,4) v by (subst 10(1)) simp_all
    from parse_members_item [OF _ 10(4) v(1) _ this] 10(2) [of d n' k' rest] 10(3,4,6,7) False n show ?thesis
      by (simp add: spaces_def del: parse_members.simps)
  qed
qed simp_all

subsection \<open>Whole texts\<close>

lemma jsize_print:
  "wf_value v \<Longrightarrow> jsize v \<le> 2 * length (print_value nl sp k v)"
  "\<forall>v \<in> set vs. wf_value v \<Longrightarrow> vs \<noteq> [] \<Longrightarrow>
     sum_list (map (\<lambda>v. Suc (jsize v)) vs) \<le> 2 * length (print_elems nl sp k vs) + 1"
  "\<forall>(key, v) \<in> set ms. wf_raw key \<and> wf_value v \<Longrightarrow> ms \<noteq> [] \<Longrightarrow>
     sum_list (map (\<lambda>(key, v). Suc (jsize v)) ms) \<le> 2 * length (print_members nl sp k ms)"
proof (induction nl sp k v and nl sp k vs and nl sp k ms
    rule: print_value_print_elems_print_members.induct)
  case (3 nl sp k l)
  then show ?case by (auto simp: wf_num_def)
next
  case (5 nl sp k vs)
  then show ?case by (cases vs) auto
next
  case (6 nl sp k ms)
  then show ?case by (cases ms) auto
next
  case (8 nl sp k v vs)
  then show ?case by (cases vs) auto
next
  case (10 nl sp k key v ms)
  then show ?case by (cases ms) auto
qed auto

text \<open>A printed value, alone or before a line break, is parsed to itself.\<close>

lemma parse_text_print:
  assumes "\<forall>k. spaces (nl k)" "spaces sp" "wf_value v" "jdepth v \<le> maxNestingDepth"
    and "spaces ws"
  shows "parse_text (print_value nl sp 0 v @ ws) = Some v"
proof -
  let ?s = "print_value nl sp 0 v @ ws"
  have "value_end ws" using value_end_spaces [OF assms(5), of "[]"] by simp
  moreover have "jsize v \<le> 2 * length ?s" using jsize_print(1) [OF assms(3), of nl sp 0] by simp
  ultimately have "parse_value (2 * length ?s) maxNestingDepth ([] @ ?s) = Some (v, ws)"
    using assms by (intro parse_print(1)) (simp_all add: spaces_def)
  moreover have "skip_space ws = []" using skip_spaces [OF assms(5), of "[]"] by (simp add: skip_space_def)
  ultimately show ?thesis by (simp add: parse_text_def)
qed

lemma parse_compact:
  "wf_value v \<Longrightarrow> jdepth v \<le> maxNestingDepth \<Longrightarrow> spaces ws \<Longrightarrow> parse_text (compact v @ ws) = Some v"
  unfolding compact_def by (rule parse_text_print) (simp_all add: spaces_def)

lemma parse_indented:
  "wf_value v \<Longrightarrow> jdepth v \<le> maxNestingDepth \<Longrightarrow> parse_text (indented v) = Some v"
  using parse_text_print [of "\<lambda>k. CHR 0x0A # replicate (2 * k) (CHR 0x20)" "[CHR 0x20]" v "[]"]
  by (simp add: indented_def spaces_def is_space_def)

section \<open>Integers\<close>

fun show_nat :: "nat \<Rightarrow> string" where
  "show_nat n = (if n < 10 then [] else show_nat (n div 10)) @ [char_of (48 + n mod 10)]"

declare show_nat.simps [simp del]

definition show_int :: "int \<Rightarrow> string" where
  "show_int i = (if i < 0 then CHR ''-'' # show_nat (nat (- i)) else show_nat (nat i))"

definition read_nat :: "string \<Rightarrow> nat" where
  "read_nat ds = foldl (\<lambda>n c. 10 * n + (byte c - 48)) 0 ds"

text \<open>
  \<open>strconv.ParseInt\<close> on a JSON number: a fraction, an exponent or a value that does not fit into
  64 bits is an error.
\<close>

definition int64 :: "int \<Rightarrow> bool" where
  "int64 i \<longleftrightarrow> - (2 ^ 63) \<le> i \<and> i < 2 ^ 63"

definition read_int :: "string \<Rightarrow> int option" where
  "read_int l =
     (let (neg, ds) = (case l of c # l' \<Rightarrow> if c = CHR ''-'' then (True, l') else (False, l) | [] \<Rightarrow> (False, []));
          i = (if neg then - int (read_nat ds) else int (read_nat ds))
      in if ds \<noteq> [] \<and> (\<forall>c \<in> set ds. is_digit c) \<and> int64 i then Some i else None)"

lemma digit_char [simp]: "d < 10 \<Longrightarrow> byte (char_of (48 + d :: nat)) = 48 + d"
  by (simp add: of_char_of take_bit_eq_mod)

lemma is_digit_char: "d < 10 \<Longrightarrow> is_digit (char_of (48 + d :: nat))"
  by (simp add: is_digit_def)

lemma show_nat_digits: "c \<in> set (show_nat n) \<Longrightarrow> is_digit c"
proof (induction n rule: show_nat.induct)
  case (1 n)
  then show ?case
    by (subst (asm) (2) show_nat.simps) (auto simp: is_digit_char split: if_splits)
qed

lemma show_nat_nonempty [simp]: "show_nat n \<noteq> []"
  by (subst show_nat.simps) simp

lemma read_show_nat [simp]: "read_nat (show_nat n) = n"
proof (induction n rule: show_nat.induct)
  case (1 n)
  then show ?case by (subst show_nat.simps) (auto simp: read_nat_def)
qed

lemma char_zero: "n < 10 \<Longrightarrow> char_of (48 + n :: nat) = CHR ''0'' \<longleftrightarrow> n = 0"
  using digit_char [of n] by (auto simp flip: byte_inject)

lemma show_nat_head: "0 < n \<Longrightarrow> hd (show_nat n) \<noteq> CHR ''0''"
proof (induction n rule: show_nat.induct)
  case (1 n)
  show ?case
  proof (cases "n < 10")
    case True
    with 1(2) show ?thesis by (subst show_nat.simps) (simp add: char_zero)
  next
    case False
    with 1(1) show ?thesis by (subst show_nat.simps) (simp add: hd_append)
  qed
qed

lemma read_show_int [simp]: "int64 i \<Longrightarrow> read_int (show_int i) = Some i"
proof -
  assume i: "int64 i"
  have digits: "\<forall>c \<in> set (show_nat n). is_digit c" for n by (blast intro: show_nat_digits)
  have not_minus: "c \<noteq> CHR ''-''" if "show_nat n = c # cs" for n c cs
    using show_nat_digits [of c n] that by (auto simp: is_digit_def)
  show ?thesis
  proof (cases "i < 0")
    case True
    with i digits show ?thesis by (simp add: read_int_def show_int_def)
  next
    case False
    obtain c cs where c: "show_nat (nat i) = c # cs" using show_nat_nonempty by (meson neq_Nil_conv)
    with not_minus [OF c] digits [of "nat i"] i False show ?thesis
      using read_show_nat [of "nat i"] by (simp add: read_int_def show_int_def)
  qed
qed

lemma scan_digits_here:
  assumes "\<forall>c \<in> set ds. is_digit c" "value_end rest"
  shows "scan_digits (ds @ rest) = (ds, rest)"
  using assms by (cases rest) (auto simp: scan_digits_def value_end_def takeWhile_append dropWhile_append)

lemma wf_show_int: "wf_num (show_int i)"
proof -
  have nat: "scan_int (show_nat n @ rest) = Some (show_nat n, rest)" if r: "value_end rest" for n rest
  proof (cases "show_nat n")
    case Nil
    then show ?thesis by simp
  next
    case (Cons c cs)
    have digits: "\<forall>c \<in> set (show_nat n). is_digit c" by (blast intro: show_nat_digits)
    show ?thesis
    proof (cases "n = 0")
      case True
      then have "show_nat n = ''0''" by (simp add: show_nat.simps [of 0] char_of_def bit_iff_odd)
      then show ?thesis by (simp add: scan_int_def)
    next
      case False
      then have "c \<noteq> CHR ''0''" using show_nat_head [of n] Cons by simp
      with scan_digits_here [OF digits r] Cons digits show ?thesis by (simp add: scan_int_def)
    qed
  qed
  have rest: "scan_frac rest = Some ([], rest)" "scan_exp rest = Some ([], rest)" if "value_end rest" for rest
    using that by (auto simp: scan_frac_def scan_exp_def value_end_def split: list.splits)
  show ?thesis
  proof (cases "i < 0")
    case True
    then have i: "show_int i = CHR ''-'' # show_nat (nat (- i))" by (simp add: show_int_def)
    show ?thesis
      unfolding wf_num_def i using nat rest by (simp add: scan_number_def)
  next
    case False
    then have i: "show_int i = show_nat (nat i)" by (simp add: show_int_def)
    obtain c cs where c: "show_nat (nat i) = c # cs" using show_nat_nonempty by (meson neq_Nil_conv)
    then have digit: "is_digit c" using show_nat_digits [of c "nat i"] by simp
    then have "c \<noteq> CHR ''-''" by (auto simp: is_digit_def)
    then have "scan_number (show_nat (nat i) @ r) = Some (show_nat (nat i), r)" if "value_end r" for r
      using nat [OF that, of "nat i"] rest [OF that] by (simp add: scan_number_def c)
    with digit c show ?thesis by (simp add: wf_num_def i)
  qed
qed

end
