(* ===== verification/Rfc3339.thy ===== *)
theory Rfc3339
  imports Json
begin

text \<open>
  The text of a \<open>time.Time\<close> in JSON: RFC 3339 with up to nine fractional digits, as
  \<open>Time.MarshalJSON\<close> writes it in the time's zone (given by its offset in minutes) and
  \<open>Time.UnmarshalJSON\<close> reads it, and the civil calendar behind it. An instant whose year has four digits is
  read back as itself.
\<close>

section \<open>The civil calendar\<close>

definition leap :: "nat \<Rightarrow> bool" where
  "leap y \<longleftrightarrow> y mod 4 = 0 \<and> (y mod 100 \<noteq> 0 \<or> y mod 400 = 0)"

definition days_in :: "nat \<Rightarrow> nat \<Rightarrow> nat" where
  "days_in y m =
     (if m = 2 then (if leap y then 29 else 28)
      else if m = 4 \<or> m = 6 \<or> m = 9 \<or> m = 11 then 30 else 31)"

definition year_length :: "nat \<Rightarrow> nat" where
  "year_length y = (if leap y then 366 else 365)"

text \<open>Days from the first of January of year 0 to the first of January of a year.\<close>

definition days_before_year :: "nat \<Rightarrow> nat" where
  "days_before_year y = 365 * y + (y + 3) div 4 + (y + 399) div 400 - (y + 99) div 100"

definition days_before_month :: "nat \<Rightarrow> nat \<Rightarrow> nat" where
  "days_before_month y m = sum_list (map (days_in y) [1..<m])"

lemma days_before_year_ge: "y \<le> days_before_year y"
  by (simp add: days_before_year_def)

lemma days_before_year_0 [simp]: "days_before_year 0 = 0"
  by (simp add: days_before_year_def)

lemma year_step:
  fixes A B C X :: nat
  assumes "B \<le> X" and "R \<Longrightarrow> Q" and "Q \<Longrightarrow> P"
  shows "365 + X + (if P then 1 else 0) + (if R then 1 else 0) - (B + (if Q then 1 else 0)) =
    X - B + (if P \<and> (\<not> Q \<or> R) then 366 else 365)"
  using assms by (cases P; cases Q; cases R) simp_all

lemma days_before_year_Suc: "days_before_year (Suc y) = days_before_year y + year_length y"
proof -
  define A B C where "A = (y + 3) div 4" and "B = (y + 99) div 100" and "C = (y + 399) div 400"
  have step: "(Suc y + (n - 1)) div n = (y + (n - 1)) div n + (if y mod n = 0 then 1 else 0)" if "0 < n" for n
    using that div_Suc [of "y + (n - 1)" n] by simp
  have a: "(Suc y + 3) div 4 = A + (if y mod 4 = 0 then 1 else 0)"
    and b: "(Suc y + 99) div 100 = B + (if y mod 100 = 0 then 1 else 0)"
    and c: "(Suc y + 399) div 400 = C + (if y mod 400 = 0 then 1 else 0)"
    using step [of 4] step [of 100] step [of 400] by (simp_all add: A_def B_def C_def)
  have d: "y mod 400 = 0 \<Longrightarrow> y mod 100 = 0" "y mod 100 = 0 \<Longrightarrow> y mod 4 = 0"
    using dvd_trans [of 100 400 y] dvd_trans [of 4 100 y] by (simp_all add: dvd_eq_mod_eq_0)
  have "B \<le> y" unfolding B_def by (cases y) simp_all
  then have e: "B \<le> 365 * y + A + C" by simp
  have y: "days_before_year y = 365 * y + A + C - B" by (simp add: days_before_year_def A_def B_def C_def)
  have "days_before_year (Suc y) = 365 + (365 * y + A + C) + (if y mod 4 = 0 then 1 else 0) +
      (if y mod 400 = 0 then 1 else 0) - (B + (if y mod 100 = 0 then 1 else 0))"
    unfolding days_before_year_def a b c by simp
  also have "\<dots> = 365 * y + A + C - B + (if y mod 4 = 0 \<and> (y mod 100 \<noteq> 0 \<or> y mod 400 = 0) then 366 else 365)"
    using e d by (rule year_step)
  finally show ?thesis unfolding y year_length_def leap_def .
qed

lemma days_before_year_le: "days_before_year y \<le> 366 * y"
  by (induction y) (simp_all add: days_before_year_Suc year_length_def)

function find_year :: "nat \<Rightarrow> nat \<Rightarrow> nat" where
  "find_year y d = (if d < days_before_year (Suc y) then y else find_year (Suc y) d)"
  by pat_completeness auto
termination
proof (relation "measure (\<lambda>(y, d). d - y)")
  fix y d :: nat
  assume "\<not> d < days_before_year (Suc y)"
  then have "y < d" using days_before_year_ge [of "Suc y"] by simp
  then show "((Suc y, d), (y, d)) \<in> measure (\<lambda>(y, d). d - y)" by simp
qed simp

declare find_year.simps [simp del]

lemma find_year_spec:
  "days_before_year y \<le> d \<Longrightarrow>
     days_before_year (find_year y d) \<le> d \<and> d < days_before_year (Suc (find_year y d))"
proof (induction y d rule: find_year.induct)
  case (1 y d)
  then show ?case by (subst (1 2) find_year.simps) auto
qed

function split_month :: "nat \<Rightarrow> nat \<Rightarrow> nat \<Rightarrow> nat \<times> nat" where
  "split_month y m r =
     (if 12 \<le> m \<or> r < days_in y m then (m, Suc r) else split_month y (Suc m) (r - days_in y m))"
  by pat_completeness auto
termination by (relation "measure (\<lambda>(y, m, r). 12 - m)") auto

declare split_month.simps [simp del]

lemma days_before_month_Suc: "1 \<le> m \<Longrightarrow> days_before_month y (Suc m) = days_before_month y m + days_in y m"
  by (simp add: days_before_month_def)

lemma days_before_month_13: "days_before_month y 13 = year_length y"
proof -
  have "[1..<13] = [1, 2, 3, 4, 5, 6, 7, 8, 9, 10, 11, 12 :: nat]" by (simp add: upt_rec)
  then show ?thesis by (simp add: days_before_month_def days_in_def year_length_def)
qed

lemma split_month_spec:
  assumes "1 \<le> m" "m \<le> 12" "days_before_month y m + r < year_length y"
  shows "case split_month y m r of (m', d) \<Rightarrow>
    1 \<le> m' \<and> m' \<le> 12 \<and> 1 \<le> d \<and> d \<le> days_in y m' \<and>
    days_before_month y m' + d = days_before_month y m + r + 1"
  using assms
proof (induction y m r rule: split_month.induct)
  case (1 y m r)
  show ?case
  proof (cases "12 \<le> m \<or> r < days_in y m")
    case True
    have "r < days_in y m"
    proof (cases "m = 12")
      case m: True
      with 1(4) days_before_month_Suc [of 12 y] days_before_month_13 [of y] show ?thesis by simp
    qed (use True 1(3) in simp)
    with True 1(2,3) show ?thesis by (simp add: split_month.simps [of y m r])
  next
    case False
    with 1 show ?thesis by (simp add: split_month.simps [of y m r] days_before_month_Suc)
  qed
qed

section \<open>Fixed-width numbers\<close>

fun pad :: "nat \<Rightarrow> nat \<Rightarrow> string" where
  "pad 0 n = []"
| "pad (Suc k) n = pad k (n div 10) @ [char_of (48 + n mod 10)]"

lemma length_pad [simp]: "length (pad k n) = k"
  by (induction k arbitrary: n) simp_all

lemma pad_two: obtains a b where "pad 2 n = [a, b]"
proof -
  have "\<exists>a b. xs = [a, b]" if "length xs = 2" for xs :: string
    using that by (auto simp: numeral_2_eq_2 length_Suc_conv)
  with that show ?thesis using length_pad by blast
qed

lemma pad_digits: "c \<in> set (pad k n) \<Longrightarrow> is_digit c"
  by (induction k arbitrary: n) (auto simp: is_digit_char)

lemma read_nat_snoc [simp]: "d < 10 \<Longrightarrow> read_nat (xs @ [char_of (48 + d :: nat)]) = 10 * read_nat xs + d"
  by (simp add: read_nat_def)

lemma read_pad: "n < 10 ^ k \<Longrightarrow> read_nat (pad k n) = n"
proof (induction k arbitrary: n)
  case 0
  then show ?case by (simp add: read_nat_def)
next
  case (Suc k)
  then have "n div 10 < 10 ^ k" by (simp add: less_mult_imp_div_less)
  with Suc show ?case by simp
qed

lemma read_nat_zeros: "read_nat (xs @ replicate k (CHR ''0'')) = read_nat xs * 10 ^ k"
  by (induction k) (simp_all add: read_nat_def replicate_append_same [symmetric])

definition parse_uint :: "string \<Rightarrow> nat \<Rightarrow> nat \<Rightarrow> nat option" where
  "parse_uint s lo hi =
     (if (\<forall>c \<in> set s. is_digit c) \<and> lo \<le> read_nat s \<and> read_nat s \<le> hi then Some (read_nat s) else None)"

lemma parse_uint_pad: "n < 10 ^ k \<Longrightarrow> lo \<le> n \<Longrightarrow> n \<le> hi \<Longrightarrow> parse_uint (pad k n) lo hi = Some n"
  by (simp add: parse_uint_def read_pad pad_digits)

section \<open>Writing\<close>

definition day_ns :: int where "day_ns = 86400 * second"

definition epoch_days :: int where "epoch_days = 719528"

definition frac_text :: "nat \<Rightarrow> string" where
  "frac_text ns = (if ns = 0 then [] else CHR ''.'' # TrimRightByte (pad 9 ns) (CHR ''0''))"

definition zone_text :: "int \<Rightarrow> string" where
  "zone_text off =
     (if off = 0 then ''Z''
      else (if off < 0 then CHR ''-'' else CHR ''+'') #
        pad 2 (nat (\<bar>off\<bar> div 60)) @ CHR '':'' # pad 2 (nat (\<bar>off\<bar> mod 60)))"

definition time_text :: "int \<Rightarrow> Time \<Rightarrow> string option" where
  "time_text off t =
     (let local = t + off * 60 * second;
          day = local div day_ns + epoch_days;
          ns = nat (local mod day_ns)
      in if day < 0 \<or> 1440 \<le> \<bar>off\<bar> then None
         else
           let y = find_year (nat day div 366) (nat day);
               (m, d) = split_month y 1 (nat day - days_before_year y);
               sec = ns div 1000000000
           in if 9999 < y then None
              else Some (pad 4 y @ CHR ''-'' # pad 2 m @ CHR ''-'' # pad 2 d @ CHR ''T'' #
                pad 2 (sec div 3600) @ CHR '':'' # pad 2 (sec div 60 mod 60) @ CHR '':'' #
                pad 2 (sec mod 60) @ frac_text (ns mod 1000000000) @ zone_text off))"

section \<open>Reading\<close>

definition slice :: "nat \<Rightarrow> nat \<Rightarrow> string \<Rightarrow> string" where
  "slice i j s = take (j - i) (drop i s)"

definition instant :: "nat \<Rightarrow> nat \<Rightarrow> nat \<Rightarrow> nat \<Rightarrow> nat \<Rightarrow> int" where
  "instant y m d sec ns =
     (int (days_before_year y + days_before_month y m + d) - 1 - epoch_days) * day_ns + int sec * second + int ns"

definition read_frac :: "string \<Rightarrow> nat \<times> string" where
  "read_frac s =
     (if HasPrefix s ''.'' \<and> 2 \<le> length s \<and> is_digit (s ! 1) then
        (let ds = take 9 (takeWhile is_digit (tl s))
         in (read_nat ds * 10 ^ (9 - length ds), dropWhile is_digit (tl s)))
      else (0, s))"

definition read_zone :: "string \<Rightarrow> int option" where
  "read_zone s =
     (if s = ''Z'' then Some 0
      else if length s \<noteq> 6 then None
      else
        (case (parse_uint (slice 1 3 s) 0 23, parse_uint (slice 4 6 s) 0 59) of
           (Some hr, Some mm) \<Rightarrow>
             if (s ! 0 = CHR ''-'' \<or> s ! 0 = CHR ''+'') \<and> s ! 3 = CHR '':''
             then Some ((if s ! 0 = CHR ''-'' then - 1 else 1) * int (hr * 60 + mm)) else None
         | _ \<Rightarrow> None))"

definition read_time :: "string \<Rightarrow> Time option" where
  "read_time s =
     (if length s < 19 then None
      else
        (case (parse_uint (slice 0 4 s) 0 9999, parse_uint (slice 5 7 s) 1 12) of
           (Some y, Some m) \<Rightarrow>
             (case (parse_uint (slice 8 10 s) 1 (days_in y m), parse_uint (slice 11 13 s) 0 23,
                    parse_uint (slice 14 16 s) 0 59, parse_uint (slice 17 19 s) 0 59) of
                (Some d, Some h, Some mi, Some sec) \<Rightarrow>
                  if s ! 4 = CHR ''-'' \<and> s ! 7 = CHR ''-'' \<and> s ! 10 = CHR ''T'' \<and> s ! 13 = CHR '':'' \<and> s ! 16 = CHR '':''
                  then
                    (let (ns, rest) = read_frac (drop 19 s)
                     in map_option (\<lambda>off. instant y m d (h * 3600 + mi * 60 + sec) ns - off * 60 * second)
                          (read_zone rest))
                  else None
              | _ \<Rightarrow> None)
         | _ \<Rightarrow> None))"

section \<open>What is written is read back\<close>

lemma char_digit_simps [simp]: "\<not> is_digit (CHR ''Z'')" "\<not> is_digit (CHR ''-'')" "\<not> is_digit (CHR ''+'')"
  "\<not> is_digit (CHR ''.'')" "is_digit (CHR ''0'')"
  by (simp_all add: is_digit_def)

lemma read_zone_text:
  assumes "\<bar>off\<bar> < 1440"
  shows "read_zone (zone_text off) = Some off"
proof (cases "off = 0")
  case True
  then show ?thesis by (simp add: read_zone_def zone_text_def)
next
  case False
  let ?h = "nat (\<bar>off\<bar> div 60)" and ?m = "nat (\<bar>off\<bar> mod 60)"
  have "?h < 24" "?m < 60" using assms by auto
  then have h: "parse_uint (pad 2 ?h) 0 23 = Some ?h" "parse_uint (pad 2 ?m) 0 59 = Some ?m"
    by (simp_all add: parse_uint_pad)
  have e: "int (?h * 60 + ?m) = \<bar>off\<bar>" by (simp add: pos_imp_zdiv_nonneg_iff)
  obtain a b where p: "pad 2 ?h = [a, b]" using pad_two .
  obtain c d where q: "pad 2 ?m = [c, d]" using pad_two .
  have "zone_text off = (if off < 0 then CHR ''-'' else CHR ''+'') # [a, b, CHR '':'', c, d]"
    using False by (simp add: zone_text_def p q)
  then show ?thesis using False h e by (simp add: read_zone_def slice_def p q)
qed

lemma zone_text_head: "\<exists>c s. zone_text off = c # s \<and> (c = CHR ''Z'' \<or> c = CHR ''-'' \<or> c = CHR ''+'')"
  by (simp add: zone_text_def)

lemma dropWhile_zeros:
  "\<exists>k. xs = TrimRightByte xs (CHR ''0'') @ replicate k (CHR ''0'')"
proof -
  let ?r = "rev xs"
  have "?r = takeWhile (\<lambda>x. x = CHR ''0'') ?r @ dropWhile (\<lambda>x. x = CHR ''0'') ?r" by simp
  moreover have "takeWhile (\<lambda>x. x = CHR ''0'') ?r = replicate (length (takeWhile (\<lambda>x. x = CHR ''0'') ?r)) (CHR ''0'')"
    by (metis (full_types) replicate_eqI set_takeWhileD)
  ultimately have "rev ?r = rev (dropWhile (\<lambda>x. x = CHR ''0'') ?r) @ replicate (length (takeWhile (\<lambda>x. x = CHR ''0'') ?r)) (CHR ''0'')"
    by (metis rev_append rev_replicate)
  then show ?thesis by (auto simp: TrimRightByte_def)
qed

lemma read_frac_text:
  assumes "ns < 10 ^ 9"
  shows "read_frac (frac_text ns @ zone_text off) = (ns, zone_text off)"
proof (cases "ns = 0")
  case True
  with zone_text_head [of off] show ?thesis by (auto simp: frac_text_def read_frac_def HasPrefix_def)
next
  case False
  obtain k where k: "pad 9 ns = TrimRightByte (pad 9 ns) (CHR ''0'') @ replicate k (CHR ''0'')"
    using dropWhile_zeros by blast
  define ds where "ds = TrimRightByte (pad 9 ns) (CHR ''0'')"
  from k have eq: "pad 9 ns = ds @ replicate k (CHR ''0'')" by (simp add: ds_def)
  then have len: "length ds + k = 9" by (metis length_append length_pad length_replicate)
  have digits: "\<forall>c \<in> set ds. is_digit c" using pad_digits [of _ 9 ns] eq by auto
  have val: "read_nat ds * 10 ^ k = ns" using read_pad [OF assms] eq read_nat_zeros by metis
  then have "ds \<noteq> []" using False by (auto simp: read_nat_def)
  obtain c z where z: "zone_text off = c # z" "\<not> is_digit c" using zone_text_head [of off] by auto
  have "takeWhile is_digit (ds @ zone_text off) = ds" "dropWhile is_digit (ds @ zone_text off) = zone_text off"
    using digits z by (simp_all add: takeWhile_append dropWhile_append)
  moreover have "is_digit ((CHR ''.'' # ds @ zone_text off) ! 1)" using \<open>ds \<noteq> []\<close> digits by (cases ds) simp_all
  moreover have "9 - length ds = k" "take 9 ds = ds" using len by simp_all
  ultimately show ?thesis
    using False val \<open>ds \<noteq> []\<close> by (cases ds) (simp_all add: frac_text_def read_frac_def HasPrefix_def flip: ds_def)
qed

lemma read_fields:
  assumes "y \<le> 9999" "1 \<le> m" "m \<le> 12" "1 \<le> d" "d \<le> days_in y m" "h \<le> 23" "mi \<le> 59" "se \<le> 59"
  shows "read_time (pad 4 y @ CHR ''-'' # pad 2 m @ CHR ''-'' # pad 2 d @ CHR ''T'' #
      pad 2 h @ CHR '':'' # pad 2 mi @ CHR '':'' # pad 2 se @ rest) =
    (let (ns, rest') = read_frac rest
     in map_option (\<lambda>off. instant y m d (h * 3600 + mi * 60 + se) ns - off * 60 * second) (read_zone rest'))"
proof -
  let ?s = "pad 4 y @ CHR ''-'' # pad 2 m @ CHR ''-'' # pad 2 d @ CHR ''T'' #
      pad 2 h @ CHR '':'' # pad 2 mi @ CHR '':'' # pad 2 se @ rest"
  have "days_in y m \<le> 31" by (simp add: days_in_def)
  with assms have f: "parse_uint (pad 4 y) 0 9999 = Some y" "parse_uint (pad 2 m) 1 12 = Some m"
    "parse_uint (pad 2 d) 1 (days_in y m) = Some d" "parse_uint (pad 2 h) 0 23 = Some h"
    "parse_uint (pad 2 mi) 0 59 = Some mi" "parse_uint (pad 2 se) 0 59 = Some se"
    by (simp_all add: parse_uint_pad)
  have sl: "slice 0 4 ?s = pad 4 y" "slice 5 7 ?s = pad 2 m" "slice 8 10 ?s = pad 2 d" "slice 11 13 ?s = pad 2 h"
    "slice 14 16 ?s = pad 2 mi" "slice 17 19 ?s = pad 2 se" "drop 19 ?s = rest"
    by (simp_all add: slice_def)
  have ch: "?s ! 4 = CHR ''-''" "?s ! 7 = CHR ''-''" "?s ! 10 = CHR ''T''" "?s ! 13 = CHR '':''" "?s ! 16 = CHR '':''"
    by (simp_all add: nth_append)
  have "\<not> length ?s < 19" by simp
  then show ?thesis unfolding read_time_def sl ch by (simp only: f if_False if_True option.case prod.case simp_thms)
qed

text \<open>\<open>UnmarshalJSON\<close> after \<open>MarshalJSON\<close> is the identity on instants.\<close>

lemma read_time_text:
  assumes "time_text off t = Some s"
  shows "read_time s = Some t"
proof -
  define local where "local = t + off * 60 * second"
  define day where "day = local div day_ns + epoch_days"
  define ns where "ns = nat (local mod day_ns)"
  define y where "y = find_year (nat day div 366) (nat day)"
  obtain m d where md: "split_month y 1 (nat day - days_before_year y) = (m, d)" by fastforce
  define sec where "sec = ns div 1000000000"
  from assms have ok: "0 \<le> day" "\<bar>off\<bar> < 1440" "y \<le> 9999"
    and s: "s = pad 4 y @ CHR ''-'' # pad 2 m @ CHR ''-'' # pad 2 d @ CHR ''T'' #
      pad 2 (sec div 3600) @ CHR '':'' # pad 2 (sec div 60 mod 60) @ CHR '':'' #
      pad 2 (sec mod 60) @ frac_text (ns mod 1000000000) @ zone_text off"
    using md unfolding time_text_def Let_def
    by (auto simp flip: local_def day_def ns_def y_def sec_def split: if_splits)
  have ns_day: "ns < 86400 * 1000000000"
    by (simp add: ns_def day_ns_def second_def millisecond_def nanosecond_def nat_less_iff)
  then have "sec < 86400" by (simp add: sec_def less_mult_imp_div_less)
  have "days_before_year (nat day div 366) \<le> 366 * (nat day div 366)" by (rule days_before_year_le)
  also have "\<dots> \<le> nat day" by simp
  finally have "days_before_year (nat day div 366) \<le> nat day" .
  from find_year_spec [OF this] have y: "days_before_year y \<le> nat day" "nat day < days_before_year (Suc y)"
    by (simp_all add: y_def)
  then have "days_before_month y 1 + (nat day - days_before_year y) < year_length y"
    by (simp add: days_before_month_def days_before_year_Suc)
  from split_month_spec [OF _ _ this] md have m: "1 \<le> m" "m \<le> 12" "1 \<le> d" "d \<le> days_in y m"
    "days_before_month y m + d = nat day - days_before_year y + 1"
    by (simp_all add: days_before_month_def)
  have hms: "sec div 3600 * 3600 + sec div 60 mod 60 * 60 + sec mod 60 = sec"
  proof -
    have "sec div 3600 = sec div 60 div 60" by (simp flip: div_mult2_eq)
    then have "sec div 3600 * 60 + sec div 60 mod 60 = sec div 60" by simp
    then have "sec div 3600 * 3600 + sec div 60 mod 60 * 60 = sec div 60 * 60" by linarith
    then show ?thesis by simp
  qed
  have "sec div 3600 \<le> 23" using \<open>sec < 86400\<close> by (simp add: less_Suc_eq_le flip: less_mult_imp_div_less)
  moreover have "sec div 60 mod 60 \<le> 59" "sec mod 60 \<le> 59" by (simp_all add: less_Suc_eq_le [symmetric])
  ultimately have "read_time s = Some (instant y m d sec (ns mod 1000000000) - off * 60 * second)"
    unfolding s
    by (subst read_fields) (use ok m in \<open>simp_all add: read_frac_text read_zone_text hms\<close>)
  moreover have "instant y m d sec (ns mod 1000000000) = local"
  proof -
    have "int (days_before_year y + days_before_month y m + d) - 1 - epoch_days = local div day_ns"
      using m(5) y(1) ok(1) by (simp add: day_def)
    moreover have "int sec * second + int (ns mod 1000000000) = int ns"
      by (simp add: sec_def second_def millisecond_def nanosecond_def zdiv_int zmod_int)
    moreover have "int ns = local mod day_ns"
      by (simp add: ns_def day_ns_def second_def millisecond_def nanosecond_def)
    ultimately show ?thesis by (simp add: instant_def add.assoc)
  qed
  ultimately show ?thesis by (simp add: local_def)
qed

lemma time_text_shape:
  assumes "time_text off t = Some s"
  obtains y m d h mi se ns where "s = pad 4 y @ CHR ''-'' # pad 2 m @ CHR ''-'' # pad 2 d @ CHR ''T'' #
    pad 2 h @ CHR '':'' # pad 2 mi @ CHR '':'' # pad 2 se @ frac_text ns @ zone_text off"
proof -
  let ?day = "nat ((t + off * 60 * second) div day_ns + epoch_days)"
  obtain m d where "split_month (find_year (?day div 366) ?day) 1 (?day - days_before_year (find_year (?day div 366) ?day)) = (m, d)"
    by fastforce
  with assms that show thesis
    by (simp add: time_text_def Let_def split: if_splits) metis
qed

lemma time_text_plain:
  assumes "time_text off t = Some s"
  shows "\<forall>c \<in> set s. plain c"
proof -
  have d: "is_digit c \<Longrightarrow> plain c" for c
    by (auto simp: is_digit_def plain_def dquote_def backslash_def)
  have l: "plain (CHR ''-'')" "plain (CHR ''+'')" "plain (CHR '':'')" "plain (CHR ''T'')" "plain (CHR ''Z'')" "plain (CHR ''.'')"
    by (simp_all add: plain_def dquote_def backslash_def)
  have p: "\<forall>c \<in> set (pad k n). plain c" for k n using pad_digits d by blast
  have "\<forall>c \<in> set (frac_text n). plain c" for n
    using p [of 9 n] l by (auto simp: frac_text_def TrimRightByte_def dest: set_dropWhileD)
  moreover have "\<forall>c \<in> set (zone_text n). plain c" for n
    using p l by (simp add: zone_text_def ball_Un)
  moreover obtain y m d h mi se ns where "s = pad 4 y @ CHR ''-'' # pad 2 m @ CHR ''-'' # pad 2 d @ CHR ''T'' #
    pad 2 h @ CHR '':'' # pad 2 mi @ CHR '':'' # pad 2 se @ frac_text ns @ zone_text off"
    using assms by (rule time_text_shape)
  ultimately show ?thesis using p l by (simp add: ball_Un)
qed

end
