(* ===== verification/Codec.thy ===== *)
theory Codec
  imports Wire Rfc3339 "HOL-Library.Char_ord" "HOL-Library.List_Lexorder"
begin

text \<open>
  The JSON-lines codec (\<open>Encode\<close> and \<open>Decode\<close> of \<open>daemon/internal/wire/wire.go\<close>): how the
  struct tags of the message types turn a message into a JSON object and back, as
  \<open>encoding/json\<close> does it (names matched without case, \<open>null\<close> without effect, \<open>omitempty\<close>,
  sorted map keys), and the order of \<open>Decode\<close>'s checks.
\<close>

section \<open>From messages to JSON values\<close>

type_synonym member = "string \<times> jval"

definition str_value :: "string \<Rightarrow> jval" where "str_value s = V_Str (quote s)"
definition int_value :: "int \<Rightarrow> jval" where "int_value i = V_Num (show_int i)"

definition omitempty :: "string \<Rightarrow> string \<Rightarrow> member list" where
  "omitempty name s = (if s = [] then [] else [(name, str_value s)])"

text \<open>A map is written with its keys in order.\<close>

fun json_value :: "json \<Rightarrow> jval" where
  "json_value JNull = V_Null"
| "json_value (JBool b) = V_Bool b"
| "json_value (JNum l) = V_Num l"
| "json_value (JStr s) = str_value s"
| "json_value (JArr js) = V_Arr (map json_value js)"
| "json_value (JObj ms) = V_Obj (map (\<lambda>(k, v). (quote k, v)) (sort_key fst (map (\<lambda>(k, j). (k, json_value j)) ms)))"

definition meta_members :: "(string, json) gomap option \<Rightarrow> member list" where
  "meta_members meta = (case meta of None \<Rightarrow> [] | Some ms \<Rightarrow> if ms = [] then [] else [(''meta'', json_value (JObj ms))])"

text \<open>\<open>off\<close> is the offset in minutes of the zone a time is shown in.\<close>

definition time_value :: "int \<Rightarrow> Time \<Rightarrow> jval option" where
  "time_value off t = map_option V_Str (time_text off t)"

definition env_members :: "'a Envelope_scheme \<Rightarrow> member list" where
  "env_members m = [(''v'', int_value (e_V m)), (''type'', str_value (e_Type m))]"

definition status_value :: "int \<Rightarrow> SessionStatus \<Rightarrow> jval option" where
  "status_value off s =
     map_option (\<lambda>t. V_Obj
       ([(''session_id'', str_value (st_SessionID s)), (''state'', str_value (st_State s))] @
        omitempty ''tmux_pane'' (st_TmuxPane s) @ omitempty ''tmux_session'' (st_TmuxSession s) @
        (if st_BoundActivities s = [] then []
         else [(''bound_activities'', V_Arr (map str_value (st_BoundActivities s)))]) @
        [(''last_event_at'', t)]))
       (time_value off (st_LastEventAt s))"

text \<open>
  The object of a message. \<open>time.Now().UTC()\<close> is shown with offset 0; the last event of a
  session keeps the daemon's own zone, \<open>off\<close>.
\<close>

definition message_members :: "int \<Rightarrow> Message \<Rightarrow> member list option" where
  "message_members off msg =
     (case msg of
        M_Emit m \<Rightarrow>
          map_option (\<lambda>ts. env_members m @
            [(''event'', str_value (em_Event m)), (''session_id'', str_value (em_SessionID m)),
             (''seq'', int_value (em_Seq m)), (''ts'', ts)] @
            omitempty ''tmux_pane'' (em_TmuxPane m) @ omitempty ''tmux_session'' (em_TmuxSession m) @
            omitempty ''tmux_socket'' (em_TmuxSocket m) @ meta_members (em_Meta m))
            (time_value 0 (em_TS m))
      | M_Ack m \<Rightarrow> Some (env_members m @ [(''ok'', V_Bool (ak_Ok m))] @ omitempty ''error'' (ak_Error m))
      | M_Subscribe m \<Rightarrow> Some (env_members m @ [(''mode'', str_value (sb_Mode m))] @
          omitempty ''session_id'' (sb_SessionID m) @ [(''activity_id'', str_value (sb_ActivityID m))] @
          omitempty ''activity_pane'' (sb_ActivityPane m) @ omitempty ''tmux_socket'' (sb_TmuxSocket m) @
          omitempty ''title'' (sb_Title m))
      | M_Unsubscribe m \<Rightarrow> Some (env_members m @ [(''activity_id'', str_value (us_ActivityID m))])
      | M_Snapshot m \<Rightarrow> map_option (\<lambda>ts. env_members m @ omitempty ''session_id'' (sn_SessionID m) @
          [(''state'', str_value (sn_State m)), (''ts'', ts)]) (time_value 0 (sn_TS m))
      | M_StateChange m \<Rightarrow> map_option (\<lambda>ts. env_members m @
          [(''session_id'', str_value (sc_SessionID m)), (''from'', str_value (sc_From m)),
           (''to'', str_value (sc_To m))] @ omitempty ''reason'' (sc_Reason m) @ [(''ts'', ts)])
          (time_value 0 (sc_TS m))
      | M_Dropped m \<Rightarrow> Some (env_members m @ omitempty ''session_id'' (dr_SessionID m) @ omitempty ''hint'' (dr_Hint m))
      | M_Hello m \<Rightarrow> Some (env_members m @ omitempty ''server_version'' (he_ServerVersion m))
      | M_Bye m \<Rightarrow> Some (env_members m @ omitempty ''reason'' (by_Reason m))
      | M_Error m \<Rightarrow> Some (env_members m @ [(''message'', str_value (er_Message m))])
      | M_Ping m \<Rightarrow> Some (env_members m)
      | M_Pong m \<Rightarrow> Some (env_members m)
      | M_FocusRequest m \<Rightarrow> Some (env_members m)
      | M_StatusRequest m \<Rightarrow> Some (env_members m)
      | M_Status m \<Rightarrow>
          map_option (\<lambda>ss. env_members m @ omitempty ''server_version'' (sr_ServerVersion m) @
            [(''sessions'', V_Arr ss)]) (those (map (status_value off) (sr_Sessions m))))"

definition Encode :: "int \<Rightarrow> Message \<Rightarrow> string option" where
  "Encode off msg = map_option (\<lambda>ms. compact (V_Obj ms) @ [CHR 0x0A]) (message_members off msg)"

section \<open>From JSON values to messages\<close>

text \<open>Field names are compared after folding: upper case, and the two non-ASCII runes that fold to ASCII.\<close>

definition upcase :: "char \<Rightarrow> char" where
  "upcase c = (if 97 \<le> byte c \<and> byte c \<le> 122 then char_of (byte c - 32) else c)"

function fold_name :: "string \<Rightarrow> string" where
  "fold_name s =
     (case s of
        [] \<Rightarrow> []
      | c # cs \<Rightarrow>
          if HasPrefix s [CHR 0xC5, CHR 0xBF] then CHR ''S'' # fold_name (drop 2 s)
          else if HasPrefix s [CHR 0xE2, CHR 0x84, CHR 0xAA] then CHR ''K'' # fold_name (drop 3 s)
          else upcase c # fold_name cs)"
  by pat_completeness auto
termination by (relation "measure length") auto

declare fold_name.simps [simp del]

text \<open>A field: its name, and what a value does to the struct (\<open>None\<close> is an \<open>UnmarshalTypeError\<close>).\<close>

type_synonym 'a field = "string \<times> (jval \<Rightarrow> 'a \<Rightarrow> 'a option)"

definition str_field :: "string \<Rightarrow> ((string \<Rightarrow> string) \<Rightarrow> 'a \<Rightarrow> 'a) \<Rightarrow> 'a field" where
  "str_field name upd = (name, \<lambda>v a. case v of
     V_Null \<Rightarrow> Some a | V_Str raw \<Rightarrow> map_option (\<lambda>s. upd (\<lambda>_. s) a) (unquote raw) | _ \<Rightarrow> None)"

definition int_field :: "string \<Rightarrow> ((int \<Rightarrow> int) \<Rightarrow> 'a \<Rightarrow> 'a) \<Rightarrow> 'a field" where
  "int_field name upd = (name, \<lambda>v a. case v of
     V_Null \<Rightarrow> Some a | V_Num l \<Rightarrow> map_option (\<lambda>i. upd (\<lambda>_. i) a) (read_int l) | _ \<Rightarrow> None)"

definition bool_field :: "string \<Rightarrow> ((bool \<Rightarrow> bool) \<Rightarrow> 'a \<Rightarrow> 'a) \<Rightarrow> 'a field" where
  "bool_field name upd = (name, \<lambda>v a. case v of
     V_Null \<Rightarrow> Some a | V_Bool b \<Rightarrow> Some (upd (\<lambda>_. b) a) | _ \<Rightarrow> None)"

definition time_field :: "string \<Rightarrow> ((Time \<Rightarrow> Time) \<Rightarrow> 'a \<Rightarrow> 'a) \<Rightarrow> 'a field" where
  "time_field name upd = (name, \<lambda>v a. case v of
     V_Null \<Rightarrow> Some a | V_Str raw \<Rightarrow> map_option (\<lambda>t. upd (\<lambda>_. t) a) (read_time raw) | _ \<Rightarrow> None)"

definition find_field :: "'a field list \<Rightarrow> string \<Rightarrow> 'a field option" where
  "find_field fs key = find (\<lambda>(name, f). fold_name name = fold_name key) fs"

fun decode_members :: "'a field list \<Rightarrow> member list \<Rightarrow> 'a \<Rightarrow> 'a option" where
  "decode_members fs [] a = Some a"
| "decode_members fs ((raw, v) # ms) a =
     (case unquote raw of
        None \<Rightarrow> None
      | Some key \<Rightarrow>
          (case find_field fs key of
             None \<Rightarrow> decode_members fs ms a
           | Some (name, f) \<Rightarrow>
               (case f v a of None \<Rightarrow> None | Some a' \<Rightarrow> decode_members fs ms a')))"

definition decode_struct :: "'a field list \<Rightarrow> jval \<Rightarrow> 'a \<Rightarrow> 'a option" where
  "decode_struct fs v a =
     (case v of V_Null \<Rightarrow> Some a | V_Obj ms \<Rightarrow> decode_members fs ms a | _ \<Rightarrow> None)"

text \<open>
  A slice field: the elements are decoded into those the slice already has (when a key is
  repeated), then into zero values.
\<close>

fun decode_elems :: "(jval \<Rightarrow> 'a \<Rightarrow> 'a option) \<Rightarrow> 'a \<Rightarrow> jval list \<Rightarrow> 'a list \<Rightarrow> 'a list option" where
  "decode_elems f zero [] old = Some []"
| "decode_elems f zero (v # vs) old =
     (case f v (case old of [] \<Rightarrow> zero | x # xs \<Rightarrow> x) of
        None \<Rightarrow> None
      | Some a \<Rightarrow> map_option (\<lambda>as. a # as) (decode_elems f zero vs (tl old)))"

definition slice_field ::
  "string \<Rightarrow> ('a \<Rightarrow> 'b list) \<Rightarrow> (('b list \<Rightarrow> 'b list) \<Rightarrow> 'a \<Rightarrow> 'a) \<Rightarrow> (jval \<Rightarrow> 'b \<Rightarrow> 'b option) \<Rightarrow> 'b \<Rightarrow> 'a field" where
  "slice_field name get upd f zero = (name, \<lambda>v a. case v of
     V_Null \<Rightarrow> Some (upd (\<lambda>_. []) a)
   | V_Arr vs \<Rightarrow> map_option (\<lambda>xs. upd (\<lambda>_. xs) a) (decode_elems f zero vs (get a))
   | _ \<Rightarrow> None)"

definition decode_str :: "jval \<Rightarrow> string \<Rightarrow> string option" where
  "decode_str v s = (case v of V_Null \<Rightarrow> Some s | V_Str raw \<Rightarrow> unquote raw | _ \<Rightarrow> None)"

text \<open>
  Values of an interface type. A number must fit into a \<open>float64\<close>: rounding to even, it
  overflows from 2 to the 1024 minus half a unit in the last place.
\<close>

definition float_limit :: nat where "float_limit = 2 ^ 1024 - 2 ^ 970"

definition float_overflow :: "string \<Rightarrow> bool" where
  "float_overflow l =
     (let l1 = (if HasPrefix l ''-'' then tl l else l);
          i = takeWhile is_digit l1;
          r1 = dropWhile is_digit l1;
          f = (if HasPrefix r1 ''.'' then takeWhile is_digit (tl r1) else []);
          r2 = (if HasPrefix r1 ''.'' then dropWhile is_digit (tl r1) else r1);
          (sg, es) = scan_sign (tl r2);
          e = (if r2 = [] then 0 else if sg = ''-'' then - int (read_nat es) else int (read_nat es));
          x = e - int (length f)
      in if x < 0 then float_limit * 10 ^ nat (- x) \<le> read_nat (i @ f)
         else float_limit \<le> read_nat (i @ f) * 10 ^ nat x)"

fun to_any :: "jval \<Rightarrow> json option"
  and to_anys :: "jval list \<Rightarrow> json list option"
  and to_map :: "member list \<Rightarrow> (string, json) gomap \<Rightarrow> (string, json) gomap option"
where
  "to_any V_Null = Some JNull"
| "to_any (V_Bool b) = Some (JBool b)"
| "to_any (V_Num l) = (if float_overflow l then None else Some (JNum l))"
| "to_any (V_Str raw) = map_option JStr (unquote raw)"
| "to_any (V_Arr vs) = map_option JArr (to_anys vs)"
| "to_any (V_Obj ms) = map_option JObj (to_map ms [])"
| "to_anys [] = Some []"
| "to_anys (v # vs) =
     (case to_any v of None \<Rightarrow> None | Some j \<Rightarrow> map_option (\<lambda>js. j # js) (to_anys vs))"
| "to_map [] acc = Some acc"
| "to_map ((raw, v) # ms) acc =
     (case unquote raw of
        None \<Rightarrow> None
      | Some k \<Rightarrow> (case to_any v of None \<Rightarrow> None | Some j \<Rightarrow> to_map ms (AList.update k j acc)))"

definition meta_field :: "EmitMessage field" where
  "meta_field = (''meta'', \<lambda>v m. case v of
     V_Null \<Rightarrow> Some (m\<lparr>em_Meta := None\<rparr>)
   | V_Obj ms \<Rightarrow> map_option (\<lambda>mp. m\<lparr>em_Meta := Some mp\<rparr>)
       (to_map ms (case em_Meta m of None \<Rightarrow> [] | Some old \<Rightarrow> old))
   | _ \<Rightarrow> None)"

section \<open>The fields and zero values of the message types\<close>

definition zero_Time :: Time where "zero_Time = - 62135596800 * second"

definition zero_env :: Envelope where "zero_env = \<lparr>e_V = 0, e_Type = []\<rparr>"

definition env_fields :: "'a Envelope_scheme field list" where
  "env_fields = [int_field ''v'' e_V_update, str_field ''type'' e_Type_update]"

definition zero_emit :: EmitMessage where
  "zero_emit = \<lparr>e_V = 0, e_Type = [], em_Event = [], em_SessionID = [], em_Seq = 0, em_TS = zero_Time,
     em_TmuxPane = [], em_TmuxSession = [], em_TmuxSocket = [], em_Meta = None\<rparr>"

definition emit_fields :: "EmitMessage field list" where
  "emit_fields = env_fields @ [str_field ''event'' em_Event_update, str_field ''session_id'' em_SessionID_update,
     int_field ''seq'' em_Seq_update, time_field ''ts'' em_TS_update, str_field ''tmux_pane'' em_TmuxPane_update,
     str_field ''tmux_session'' em_TmuxSession_update, str_field ''tmux_socket'' em_TmuxSocket_update, meta_field]"

definition zero_ack :: AckMessage where
  "zero_ack = \<lparr>e_V = 0, e_Type = [], ak_Ok = False, ak_Error = []\<rparr>"

definition ack_fields :: "AckMessage field list" where
  "ack_fields = env_fields @ [bool_field ''ok'' ak_Ok_update, str_field ''error'' ak_Error_update]"

definition zero_subscribe :: SubscribeMessage where
  "zero_subscribe = \<lparr>e_V = 0, e_Type = [], sb_Mode = [], sb_SessionID = [], sb_ActivityID = [], sb_ActivityPane = [],
     sb_TmuxSocket = [], sb_Title = []\<rparr>"

definition subscribe_fields :: "SubscribeMessage field list" where
  "subscribe_fields = env_fields @ [str_field ''mode'' sb_Mode_update, str_field ''session_id'' sb_SessionID_update,
     str_field ''activity_id'' sb_ActivityID_update, str_field ''activity_pane'' sb_ActivityPane_update,
     str_field ''tmux_socket'' sb_TmuxSocket_update, str_field ''title'' sb_Title_update]"

definition zero_unsubscribe :: UnsubscribeMessage where
  "zero_unsubscribe = \<lparr>e_V = 0, e_Type = [], us_ActivityID = []\<rparr>"

definition unsubscribe_fields :: "UnsubscribeMessage field list" where
  "unsubscribe_fields = env_fields @ [str_field ''activity_id'' us_ActivityID_update]"

definition zero_snapshot :: SnapshotMessage where
  "zero_snapshot = \<lparr>e_V = 0, e_Type = [], sn_SessionID = [], sn_State = [], sn_TS = zero_Time\<rparr>"

definition snapshot_fields :: "SnapshotMessage field list" where
  "snapshot_fields = env_fields @ [str_field ''session_id'' sn_SessionID_update, str_field ''state'' sn_State_update,
     time_field ''ts'' sn_TS_update]"

definition zero_state_change :: StateChangeMessage where
  "zero_state_change = \<lparr>e_V = 0, e_Type = [], sc_SessionID = [], sc_From = [], sc_To = [], sc_Reason = [],
     sc_TS = zero_Time\<rparr>"

definition state_change_fields :: "StateChangeMessage field list" where
  "state_change_fields = env_fields @ [str_field ''session_id'' sc_SessionID_update, str_field ''from'' sc_From_update,
     str_field ''to'' sc_To_update, str_field ''reason'' sc_Reason_update, time_field ''ts'' sc_TS_update]"

definition zero_dropped :: DroppedMessage where
  "zero_dropped = \<lparr>e_V = 0, e_Type = [], dr_SessionID = [], dr_Hint = []\<rparr>"

definition dropped_fields :: "DroppedMessage field list" where
  "dropped_fields = env_fields @ [str_field ''session_id'' dr_SessionID_update, str_field ''hint'' dr_Hint_update]"

definition zero_hello :: HelloMessage where
  "zero_hello = \<lparr>e_V = 0, e_Type = [], he_ServerVersion = []\<rparr>"

definition hello_fields :: "HelloMessage field list" where
  "hello_fields = env_fields @ [str_field ''server_version'' he_ServerVersion_update]"

definition zero_bye :: ByeMessage where "zero_bye = \<lparr>e_V = 0, e_Type = [], by_Reason = []\<rparr>"

definition bye_fields :: "ByeMessage field list" where
  "bye_fields = env_fields @ [str_field ''reason'' by_Reason_update]"

definition zero_error :: ErrorMessage where "zero_error = \<lparr>e_V = 0, e_Type = [], er_Message = []\<rparr>"

definition error_fields :: "ErrorMessage field list" where
  "error_fields = env_fields @ [str_field ''message'' er_Message_update]"

definition zero_session_status :: SessionStatus where
  "zero_session_status = \<lparr>st_SessionID = [], st_State = [], st_TmuxPane = [], st_TmuxSession = [],
     st_BoundActivities = [], st_LastEventAt = zero_Time\<rparr>"

definition session_status_fields :: "SessionStatus field list" where
  "session_status_fields = [str_field ''session_id'' st_SessionID_update, str_field ''state'' st_State_update,
     str_field ''tmux_pane'' st_TmuxPane_update, str_field ''tmux_session'' st_TmuxSession_update,
     slice_field ''bound_activities'' st_BoundActivities st_BoundActivities_update decode_str [],
     time_field ''last_event_at'' st_LastEventAt_update]"

definition zero_status :: StatusResponseMessage where
  "zero_status = \<lparr>e_V = 0, e_Type = [], sr_ServerVersion = [], sr_Sessions = []\<rparr>"

definition status_fields :: "StatusResponseMessage field list" where
  "status_fields = env_fields @ [str_field ''server_version'' sr_ServerVersion_update,
     slice_field ''sessions'' sr_Sessions sr_Sessions_update (decode_struct session_status_fields) zero_session_status]"

section \<open>Decode\<close>

datatype decode_error =
  BadJson
| BadVersion int
| ErrUnknownType string
| BadMessage string

definition decode_body :: "string \<Rightarrow> jval \<Rightarrow> Message option option" where
  "decode_body typ v =
     (if typ = ''emit'' then Some (map_option M_Emit (decode_struct emit_fields v zero_emit))
      else if typ = ''ack'' then Some (map_option M_Ack (decode_struct ack_fields v zero_ack))
      else if typ = ''subscribe'' then Some (map_option M_Subscribe (decode_struct subscribe_fields v zero_subscribe))
      else if typ = ''unsubscribe'' then
        Some (map_option M_Unsubscribe (decode_struct unsubscribe_fields v zero_unsubscribe))
      else if typ = ''snapshot'' then Some (map_option M_Snapshot (decode_struct snapshot_fields v zero_snapshot))
      else if typ = ''state_change'' then
        Some (map_option M_StateChange (decode_struct state_change_fields v zero_state_change))
      else if typ = ''dropped'' then Some (map_option M_Dropped (decode_struct dropped_fields v zero_dropped))
      else if typ = ''hello'' then Some (map_option M_Hello (decode_struct hello_fields v zero_hello))
      else if typ = ''bye'' then Some (map_option M_Bye (decode_struct bye_fields v zero_bye))
      else if typ = ''error'' then Some (map_option M_Error (decode_struct error_fields v zero_error))
      else if typ = ''ping'' then Some (map_option M_Ping (decode_struct env_fields v zero_env))
      else if typ = ''pong'' then Some (map_option M_Pong (decode_struct env_fields v zero_env))
      else if typ = ''focus_request'' then Some (map_option M_FocusRequest (decode_struct env_fields v zero_env))
      else if typ = ''status_request'' then Some (map_option M_StatusRequest (decode_struct env_fields v zero_env))
      else if typ = ''status'' then Some (map_option M_Status (decode_struct status_fields v zero_status))
      else None)"

definition Decode :: "string \<Rightarrow> decode_error + Message" where
  "Decode line =
     (case parse_text line of
        None \<Rightarrow> Inl BadJson
      | Some v \<Rightarrow>
          (case decode_struct env_fields v zero_env of
             None \<Rightarrow> Inl BadJson
           | Some env \<Rightarrow>
               if e_V env \<noteq> Version then Inl (BadVersion (e_V env))
               else
                 (case decode_body (e_Type env) v of
                    None \<Rightarrow> Inl (ErrUnknownType (e_Type env))
                  | Some None \<Rightarrow> Inl (BadMessage (e_Type env))
                  | Some (Some msg) \<Rightarrow> Inr msg)))"

section \<open>Field lookup\<close>

definition name_ok :: "string \<Rightarrow> bool" where
  "name_ok s \<longleftrightarrow> (\<forall>c \<in> set s. 97 \<le> byte c \<and> byte c \<le> 122 \<or> c = CHR ''_'')"

lemma fold_name_ascii: "\<forall>c \<in> set s. byte c < 0x80 \<Longrightarrow> fold_name s = map upcase s"
proof (induction s)
  case Nil
  then show ?case by (simp add: fold_name.simps [of "[]"])
next
  case (Cons c s)
  then have "c \<noteq> CHR 0xC5" "c \<noteq> CHR 0xE2" by auto
  with Cons show ?case by (simp add: fold_name.simps [of "c # s"] HasPrefix_def)
qed

lemma upcase_inj:
  assumes "97 \<le> byte c \<and> byte c \<le> 122 \<or> c = CHR ''_''" "97 \<le> byte d \<and> byte d \<le> 122 \<or> d = CHR ''_''"
    and "upcase c = upcase d"
  shows "c = d"
proof -
  have up: "byte (upcase x) = (if 97 \<le> byte x \<and> byte x \<le> 122 then byte x - 32 else byte x)" for x
    by (auto simp: upcase_def of_char_of take_bit_eq_mod)
  have inj: "x = y" if "97 \<le> x \<and> x \<le> 122 \<or> x = 95" "97 \<le> y \<and> y \<le> 122 \<or> y = 95"
    "(if 97 \<le> x \<and> x \<le> 122 then x - 32 else x) = (if 97 \<le> y \<and> y \<le> 122 then y - 32 else y)" for x y :: nat
    using that by (auto split: if_splits)
  have "byte c = byte d"
    by (rule inj) (use assms up [of c] up [of d] in auto)
  then show ?thesis by (simp only: byte_inject)
qed

lemma fold_name_inj:
  assumes "name_ok s" "name_ok t"
  shows "fold_name s = fold_name t \<longleftrightarrow> s = t"
proof -
  have ascii: "\<forall>c \<in> set x. byte c < 0x80" if "name_ok x" for x
    using that unfolding name_ok_def by fastforce
  have "inj_on upcase (set s \<union> set t)"
    using assms unfolding name_ok_def by - (rule inj_onI, rule upcase_inj, blast+)
  then show ?thesis
    using assms inj_on_map_eq_map [of upcase s t] by (simp add: fold_name_ascii ascii)
qed

lemma unquote_name: "name_ok s \<Longrightarrow> unquote s = Some s"
proof (induction s)
  case (Cons c s)
  then have "plain c" "byte c < 0x80" by (auto simp: name_ok_def plain_def dquote_def backslash_def)
  with Cons show ?case by (simp add: unquote_plain name_ok_def)
qed simp

definition fields_ok :: "'a field list \<Rightarrow> bool" where
  "fields_ok fs \<longleftrightarrow> (\<forall>f \<in> set fs. name_ok (fst f))"

text \<open>The decoder of a field by its exact name.\<close>

definition lookup :: "'a field list \<Rightarrow> string \<Rightarrow> (jval \<Rightarrow> 'a \<Rightarrow> 'a option) option" where
  "lookup fs key = map_of fs key"

lemma decode_member:
  assumes "fields_ok fs" "name_ok key"
  shows "decode_members fs ((key, v) # ms) a =
    (case lookup fs key of
       None \<Rightarrow> decode_members fs ms a
     | Some f \<Rightarrow> (case f v a of None \<Rightarrow> None | Some a' \<Rightarrow> decode_members fs ms a'))"
proof -
  have "find_field fs key = map_option (\<lambda>f. (key, f)) (lookup fs key)"
    using assms unfolding find_field_def fields_ok_def lookup_def
    by (induction fs) (auto simp: fold_name_inj)
  then show ?thesis using assms by (simp add: unquote_name split: option.split)
qed

declare decode_members.simps(2) [simp del]

definition opt_step :: "(jval \<Rightarrow> 'a \<Rightarrow> 'a option) \<Rightarrow> string \<Rightarrow> 'a \<Rightarrow> 'a option" where
  "opt_step f s a = (if s = [] then Some a else f (str_value s) a)"

lemma decode_omitempty:
  assumes "fields_ok fs" "name_ok key"
  shows "decode_members fs (omitempty key s @ ms) a =
    (case lookup fs key of
       None \<Rightarrow> decode_members fs ms a
     | Some f \<Rightarrow> (case opt_step f s a of None \<Rightarrow> None | Some a' \<Rightarrow> decode_members fs ms a'))"
  using decode_member [OF assms] by (auto simp: omitempty_def opt_step_def split: option.split)

lemma decode_str_value [simp]:
  "valid_utf8 s \<Longrightarrow> snd (str_field name upd) (str_value s) a = Some (upd (\<lambda>_. s) a)"
  "valid_utf8 s \<Longrightarrow> upd (\<lambda>_. []) a = a \<Longrightarrow> opt_step (snd (str_field name upd)) s a = Some (upd (\<lambda>_. s) a)"
  "int64 i \<Longrightarrow> snd (int_field name iupd) (int_value i) a = Some (iupd (\<lambda>_. i) a)"
  "snd (bool_field name bupd) (V_Bool b) a = Some (bupd (\<lambda>_. b) a)"
  "time_value off t = Some v \<Longrightarrow> snd (time_field name tupd) v a = Some (tupd (\<lambda>_. t) a)"
  by (auto simp: str_field_def str_value_def opt_step_def int_field_def int_value_def bool_field_def time_field_def
      time_value_def unquote_quote valid_utf8_def read_time_text)

lemma lookup_simps [simp]:
  "lookup [] k = None"
  "lookup (str_field n upd # fs) k = (if k = n then Some (snd (str_field n upd)) else lookup fs k)"
  "lookup (int_field n iupd # fs) k = (if k = n then Some (snd (int_field n iupd)) else lookup fs k)"
  "lookup (bool_field n bupd # fs) k = (if k = n then Some (snd (bool_field n bupd)) else lookup fs k)"
  "lookup (time_field n tupd # fs) k = (if k = n then Some (snd (time_field n tupd)) else lookup fs k)"
  "lookup (slice_field n get lupd f zero # fs) k =
     (if k = n then Some (snd (slice_field n get lupd f zero)) else lookup fs k)"
  "lookup (meta_field # mfs) k = (if k = ''meta'' then Some (snd meta_field) else lookup mfs k)"
  by (auto simp: lookup_def str_field_def int_field_def bool_field_def time_field_def slice_field_def meta_field_def)

lemma lookup_append [simp]:
  "lookup (xs @ ys) k = (case lookup xs k of None \<Rightarrow> lookup ys k | Some f \<Rightarrow> Some f)"
  by (simp add: lookup_def map_add_def split: option.split)

lemma fields_ok_simps [simp]:
  "fields_ok []" "fields_ok (xs @ ys) \<longleftrightarrow> fields_ok xs \<and> fields_ok ys"
  "fields_ok (str_field n upd # fs) \<longleftrightarrow> name_ok n \<and> fields_ok fs"
  "fields_ok (int_field n iupd # fs) \<longleftrightarrow> name_ok n \<and> fields_ok fs"
  "fields_ok (bool_field n bupd # fs) \<longleftrightarrow> name_ok n \<and> fields_ok fs"
  "fields_ok (time_field n tupd # fs) \<longleftrightarrow> name_ok n \<and> fields_ok fs"
  "fields_ok (slice_field n get lupd f zero # fs) \<longleftrightarrow> name_ok n \<and> fields_ok fs"
  "fields_ok (meta_field # mfs) \<longleftrightarrow> name_ok ''meta'' \<and> fields_ok mfs"
  by (auto simp: fields_ok_def str_field_def int_field_def bool_field_def time_field_def slice_field_def meta_field_def)

lemma names [simp]:
  "name_ok ''v''" "name_ok ''type''" "name_ok ''event''" "name_ok ''session_id''" "name_ok ''seq''" "name_ok ''ts''"
  "name_ok ''tmux_pane''" "name_ok ''tmux_session''" "name_ok ''tmux_socket''" "name_ok ''meta''" "name_ok ''ok''"
  "name_ok ''error''" "name_ok ''mode''" "name_ok ''activity_id''" "name_ok ''activity_pane''" "name_ok ''title''"
  "name_ok ''state''" "name_ok ''from''" "name_ok ''to''" "name_ok ''reason''" "name_ok ''hint''"
  "name_ok ''server_version''" "name_ok ''message''" "name_ok ''bound_activities''" "name_ok ''last_event_at''"
  "name_ok ''sessions''"
  by (simp_all add: name_ok_def)

lemmas fields_defs = env_fields_def emit_fields_def ack_fields_def subscribe_fields_def unsubscribe_fields_def
  snapshot_fields_def state_change_fields_def dropped_fields_def hello_fields_def bye_fields_def error_fields_def
  session_status_fields_def status_fields_def

lemmas zero_defs = zero_env_def zero_emit_def zero_ack_def zero_subscribe_def zero_unsubscribe_def zero_snapshot_def
  zero_state_change_def zero_dropped_def zero_hello_def zero_bye_def zero_error_def zero_session_status_def zero_status_def

lemma all_fields_ok [simp]:
  "fields_ok env_fields" "fields_ok emit_fields" "fields_ok ack_fields" "fields_ok subscribe_fields"
  "fields_ok unsubscribe_fields" "fields_ok snapshot_fields" "fields_ok state_change_fields" "fields_ok dropped_fields"
  "fields_ok hello_fields" "fields_ok bye_fields" "fields_ok error_fields" "fields_ok session_status_fields"
  "fields_ok status_fields"
  by (simp_all add: fields_defs)

lemmas lookup_defs = fields_defs [THEN arg_cong [of _ _ lookup]]

end
