(* ===== verification/CodecFacts.thy ===== *)
theory CodecFacts
  imports Codec
begin

text \<open>
  Facts about the codec: a message that is written is read back as itself, and what is written
  is one line.
\<close>

section \<open>Skipping and appending members\<close>

lemma decode_append:
  "decode_members fs (xs @ ys) a =
     (case decode_members fs xs a of None \<Rightarrow> None | Some b \<Rightarrow> decode_members fs ys b)"
  by (induction fs xs a rule: decode_members.induct)
     (simp_all add: decode_members.simps(2) split: option.splits prod.splits)

lemma decode_skip:
  "fields_ok fs \<Longrightarrow> \<forall>(key, v) \<in> set ms. name_ok key \<and> key \<notin> fst ` set fs \<Longrightarrow> decode_members fs ms a = Some a"
proof (induction ms)
  case (Cons m ms)
  obtain key v where m: "m = (key, v)" by fastforce
  with Cons.prems have "name_ok key" "lookup fs key = None" by (auto simp: lookup_def map_of_eq_None_iff)
  with Cons m show ?case by (simp add: decode_member)
qed simp

lemma env_pass:
  assumes "int64 (e_V m)" "valid_utf8 (e_Type m)"
    and "\<forall>(key, v) \<in> set ms. name_ok key \<and> key \<noteq> ''v'' \<and> key \<noteq> ''type''"
  shows "decode_members env_fields (env_members m @ ms) zero_env = Some \<lparr>e_V = e_V m, e_Type = e_Type m\<rparr>"
proof -
  have "decode_members env_fields (env_members m) zero_env = Some \<lparr>e_V = e_V m, e_Type = e_Type m\<rparr>"
    using assms by (simp add: env_members_def decode_member lookup_defs zero_env_def)
  moreover have "decode_members env_fields ms a = Some a" for a :: Envelope
    using assms(3) by (intro decode_skip all_fields_ok) (auto simp: env_fields_def int_field_def str_field_def)
  ultimately show ?thesis by (simp add: decode_append)
qed

lemma members_shape:
  assumes "message_members off msg = Some ms"
  obtains rest where "ms = env_members (envelope msg) @ rest"
    and "\<forall>(key, v) \<in> set rest. name_ok key \<and> key \<noteq> ''v'' \<and> key \<noteq> ''type''"
proof -
  have env: "env_members m = env_members (Envelope.truncate m)" for m :: "'a Envelope_scheme"
    by (simp add: env_members_def Envelope.truncate_def)
  have "\<exists>rest. ms = env_members (envelope msg) @ rest \<and>
    (\<forall>(key, v) \<in> set rest. name_ok key \<and> key \<noteq> ''v'' \<and> key \<noteq> ''type'')"
    using assms
    by (cases msg) (auto simp: message_members_def envelope_def env [symmetric] omitempty_def meta_members_def
        split: option.splits if_splits)
  with that show thesis by blast
qed

section \<open>Maps of arbitrary values\<close>

fun json_ok :: "json \<Rightarrow> bool" where
  "json_ok (JNum l) \<longleftrightarrow> wf_num l \<and> \<not> float_overflow l"
| "json_ok (JStr s) \<longleftrightarrow> valid_utf8 s"
| "json_ok (JArr js) \<longleftrightarrow> (\<forall>j \<in> set js. json_ok j)"
| "json_ok (JObj ms) \<longleftrightarrow> (\<forall>(k, j) \<in> set ms. valid_utf8 k \<and> json_ok j) \<and>
     sorted (map fst ms) \<and> distinct (map fst ms)"
| "json_ok _ \<longleftrightarrow> True"

lemma unquote_valid [simp]: "valid_utf8 s \<Longrightarrow> unquote (quote s) = Some s"
  by (simp add: unquote_quote valid_utf8_def)

lemma update_new: "k \<notin> fst ` set m \<Longrightarrow> AList.update k v m = m @ [(k, v)]"
  by (induction m) auto

lemma to_map_written:
  assumes "\<forall>(k, j) \<in> set ms. valid_utf8 k \<and> to_any (json_value j) = Some j"
    and "distinct (map fst ms)" and "fst ` set acc \<inter> fst ` set ms = {}"
  shows "to_map (map (\<lambda>(k, j). (quote k, json_value j)) ms) acc = Some (acc @ ms)"
  using assms
proof (induction ms arbitrary: acc)
  case (Cons m ms)
  obtain k j where m: "m = (k, j)" by fastforce
  with Cons.prems have "AList.update k j acc = acc @ [(k, j)]" by (intro update_new) auto
  with Cons m show ?case by auto
qed simp

lemma to_anys_written:
  "\<forall>j \<in> set js. to_any (json_value j) = Some j \<Longrightarrow> to_anys (map json_value js) = Some js"
  by (induction js) simp_all

lemma json_value_obj:
  "sorted (map fst ms) \<Longrightarrow> json_value (JObj ms) = V_Obj (map (\<lambda>(k, j). (quote k, json_value j)) ms)"
  by (simp add: sort_key_id_if_sorted comp_def case_prod_beta)

lemma to_any_written: "json_ok j \<Longrightarrow> to_any (json_value j) = Some j"
proof (induction j)
  case (JArr js)
  then show ?case by (simp add: to_anys_written)
next
  case (JObj ms)
  then have "\<forall>(k, j) \<in> set ms. valid_utf8 k \<and> to_any (json_value j) = Some j"
    by (fastforce simp: snds.simps)
  with JObj.prems to_map_written [of ms "[]"] show ?case
    unfolding json_value_obj [of ms] by (simp add: json_value_obj del: json_value.simps)
qed (simp_all add: str_value_def)

section \<open>What is written is well-formed\<close>

lemma wf_quote [simp]: "wf_raw (quote s)"
  by (simp add: wf_raw_def scan_quote)

lemma wf_plain: "\<forall>c \<in> set s. plain c \<Longrightarrow> wf_raw s"
  by (simp add: wf_raw_def scan_plain)

lemma wf_name: "name_ok s \<Longrightarrow> wf_raw s"
  by (rule wf_plain) (auto simp: name_ok_def plain_def dquote_def backslash_def)

lemma time_value_shape: "time_value off t = Some v \<Longrightarrow> \<exists>s. v = V_Str s \<and> wf_raw s"
  by (auto simp: time_value_def intro!: wf_plain dest: time_text_plain)

lemma atoms [simp]:
  "wf_value (str_value s)" "jdepth (str_value s) = 0" "wf_value (int_value i)" "jdepth (int_value i) = 0"
  by (simp_all add: str_value_def int_value_def wf_show_int)

lemma time_atom:
  "time_value off t = Some v \<Longrightarrow> wf_value v" "time_value off t = Some v \<Longrightarrow> jdepth v = 0"
  by (auto dest: time_value_shape)

text \<open>Number literals of a map are JSON numbers, and the nesting is what the parser allows.\<close>

fun json_wf :: "json \<Rightarrow> bool" where
  "json_wf (JNum l) \<longleftrightarrow> wf_num l"
| "json_wf (JArr js) \<longleftrightarrow> (\<forall>j \<in> set js. json_wf j)"
| "json_wf (JObj ms) \<longleftrightarrow> (\<forall>(k, j) \<in> set ms. json_wf j)"
| "json_wf _ \<longleftrightarrow> True"

lemma json_ok_wf: "json_ok j \<Longrightarrow> json_wf j"
  by (induction j) (fastforce simp: snds.simps)+

lemma wf_json_value: "json_wf j \<Longrightarrow> wf_value (json_value j)"
  by (induction j) (fastforce simp: snds.simps)+

end
