(* ===== verification/Framing.thy ===== *)
theory Framing
  imports CodecFacts
begin

text \<open>
  What \<open>Encode\<close> writes: well-formed JSON of bounded nesting, on one line.
\<close>

section \<open>The value of a message is well-formed\<close>

text \<open>The maps of a message, its only parts that are not text, integers or times.\<close>

definition meta_of :: "Message \<Rightarrow> json list" where
  "meta_of msg = (case msg of M_Emit m \<Rightarrow> (case em_Meta m of None \<Rightarrow> [] | Some ms \<Rightarrow> [JObj ms]) | _ \<Rightarrow> [])"

definition writable :: "Message \<Rightarrow> bool" where
  "writable msg \<longleftrightarrow> (\<forall>j \<in> set (meta_of msg). json_wf j \<and> jdepth (json_value j) < maxNestingDepth)"

definition written :: "nat \<Rightarrow> member list \<Rightarrow> bool" where
  "written d ms \<longleftrightarrow> (\<forall>(k, v) \<in> set ms. name_ok k \<and> wf_value v \<and> jdepth v \<le> d)"

lemma written_simps [simp]:
  "written d []" "written d ((k, v) # ms) \<longleftrightarrow> name_ok k \<and> wf_value v \<and> jdepth v \<le> d \<and> written d ms"
  "written d (xs @ ys) \<longleftrightarrow> written d xs \<and> written d ys"
  "written d (omitempty k s) \<longleftrightarrow> s = [] \<or> name_ok k"
  "written d (env_members m)"
  by (auto simp: written_def omitempty_def env_members_def)

lemma fold_max_bound: "(\<And>y. y \<in> set xs \<Longrightarrow> y \<le> b) \<Longrightarrow> x \<le> b \<Longrightarrow> fold max xs x \<le> (b :: nat)"
  by (induction xs arbitrary: x) auto

lemma jdepth_Obj: "written d ms \<Longrightarrow> jdepth (V_Obj ms) \<le> Suc d"
  by (auto simp: written_def intro!: fold_max_bound)

lemma jdepth_Arr: "(\<And>v. v \<in> set vs \<Longrightarrow> jdepth v \<le> d) \<Longrightarrow> jdepth (V_Arr vs) \<le> Suc d"
  by (auto intro!: fold_max_bound)

lemma wf_Obj: "written d ms \<Longrightarrow> wf_value (V_Obj ms)"
  by (auto simp: written_def dest: wf_name)

lemma strings_depth: "jdepth (V_Arr (map str_value ss)) \<le> Suc 0"
  by (rule jdepth_Arr) auto

lemma status_value_written:
  assumes "status_value off s = Some v"
  shows "wf_value v" and "jdepth v \<le> 2"
proof -
  obtain ms where v: "v = V_Obj ms" and ms: "written 1 ms"
    using assms strings_depth by (auto simp: status_value_def time_atom simp del: jdepth.simps)
  show "wf_value v" unfolding v using ms by (rule wf_Obj)
  show "jdepth v \<le> 2" unfolding v using jdepth_Obj [OF ms] by simp
qed

lemma those_mem: "those (map f xs) = Some ys \<Longrightarrow> y \<in> set ys \<Longrightarrow> \<exists>x \<in> set xs. f x = Some y"
  by (induction xs arbitrary: ys) (auto split: option.splits)

lemma sessions_written:
  assumes "those (map (status_value off) ss) = Some vs"
  shows "wf_value (V_Arr vs)" and "jdepth (V_Arr vs) \<le> 3"
proof -
  have "wf_value v \<and> jdepth v \<le> 2" if "v \<in> set vs" for v
    using those_mem [OF assms that] status_value_written by blast
  then show "wf_value (V_Arr vs)" "jdepth (V_Arr vs) \<le> 3"
    using jdepth_Arr [of vs 2] by auto
qed

lemma meta_written:
  assumes "writable (M_Emit m)"
  shows "written (maxNestingDepth - 1) (meta_members (em_Meta m))"
  using assms wf_json_value [of "JObj ms" for ms]
  by (auto simp: writable_def meta_of_def meta_members_def simp del: json_value.simps json_wf.simps
      split: option.splits)

lemma message_members_written:
  assumes "message_members off msg = Some ms" "writable msg"
  shows "written (maxNestingDepth - 1) ms"
proof -
  have d: "3 \<le> maxNestingDepth - 1" by (simp add: maxNestingDepth_def)
  have b: "jdepth (V_Bool b) = 0" for b by simp
  show ?thesis
    using assms meta_written sessions_written order_trans [OF _ d]
    by (cases msg) (auto simp: message_members_def time_atom b simp del: jdepth.simps wf_value.simps(3))
qed

lemma parse_message:
  assumes "message_members off msg = Some ms" "writable msg"
  shows "parse_text (compact (V_Obj ms) @ [CHR 0x0A]) = Some (V_Obj ms)"
proof (rule parse_compact)
  have w: "written (maxNestingDepth - 1) ms" using assms by (rule message_members_written)
  show "wf_value (V_Obj ms)" using w by (rule wf_Obj)
  show "jdepth (V_Obj ms) \<le> maxNestingDepth"
    using jdepth_Obj [OF w] by (simp add: maxNestingDepth_def)
qed (simp add: spaces_def is_space_def)

section \<open>One line per message\<close>

definition line_char :: "char \<Rightarrow> bool" where "line_char c \<longleftrightarrow> 0x20 \<le> byte c"

lemma simple_escape_line: "simple_escape e = Some x \<Longrightarrow> line_char e"
  by (auto simp: simple_escape_def line_char_def dquote_def backslash_def split: if_splits)

lemma scan_string_line: "scan_string s = Some (raw, rest) \<Longrightarrow> \<forall>c \<in> set raw. line_char c"
proof (induction s arbitrary: raw rest rule: scan_string.induct)
  case (2 c s)
  note eq = 2(3) [unfolded scan_string.simps(2)]
  show ?case
  proof (cases "c = dquote \<or> byte c < 0x20")
    case True
    with eq show ?thesis by (auto split: if_splits)
  next
    case False
    note outer = this
    show ?thesis
    proof (cases "c = backslash")
      case True
      with eq outer obtain e s' raw' where "s = e # s'" "raw = c # e # raw'" "scan_string s' = Some (raw', rest)"
        and e: "e = CHR ''u'' \<and> hex4 s' \<noteq> None \<or> simple_escape e \<noteq> None"
        by (auto split: list.splits if_splits)
      moreover from e have "line_char e" by (auto simp: line_char_def dest: simple_escape_line [unfolded line_char_def])
      ultimately show ?thesis using "2.IH"(2) [of e s' raw' rest] True outer by (auto simp: line_char_def)
    next
      case False
      with eq outer "2.IH"(1) show ?thesis by (auto simp: line_char_def)
    qed
  qed
qed simp

lemma wf_raw_line: "wf_raw raw \<Longrightarrow> \<forall>c \<in> set raw. line_char c"
  using scan_string_line [of "raw @ dquote # []" raw "[]"] by (auto simp: wf_raw_def)

lemma digit_line: "is_digit c \<Longrightarrow> line_char c"
  by (simp add: is_digit_def line_char_def)

lemma scan_digits_line: "scan_digits s = (ds, rest) \<Longrightarrow> c \<in> set ds \<Longrightarrow> line_char c"
  by (auto simp: scan_digits_def dest!: set_takeWhileD intro: digit_line)

lemma line_chars [simp]:
  "line_char (CHR ''0'')" "line_char (CHR ''-'')" "line_char (CHR ''+'')" "line_char (CHR ''.'')"
  "line_char (CHR ''e'')" "line_char (CHR ''E'')" "line_char dquote" "line_char (CHR '':'')" "line_char (CHR '','')"
  by (simp_all add: line_char_def)

lemma scan_number_line:
  assumes "scan_number s = Some (l, rest)"
  shows "\<forall>c \<in> set l. line_char c"
proof -
  have i: "line_char c" if "scan_int x = Some (i, r)" "c \<in> set i" for x i r c
    using that by (auto simp: scan_int_def dest: scan_digits_line split: list.splits if_splits)
  have f: "line_char c" if "scan_frac x = Some (f, r)" "c \<in> set f" for x f r c
    using that by (auto simp: scan_frac_def dest: scan_digits_line split: list.splits if_splits prod.splits)
  have g: "line_char c" if "scan_sign x = (g, r)" "c \<in> set g" for x g r c
    using that by (auto simp: scan_sign_def split: list.splits if_splits)
  have e: "line_char c" if "scan_exp x = Some (e, r)" "c \<in> set e" for x e r c
    using that by (auto simp: scan_exp_def dest: scan_digits_line g split: list.splits if_splits prod.splits)
  show ?thesis
    using assms by (auto simp: scan_number_def Let_def dest: i f e split: list.splits if_splits option.splits prod.splits)
qed

lemma wf_num_line: "wf_num l \<Longrightarrow> \<forall>c \<in> set l. line_char c"
  using scan_number_line [of l l "[]"] unfolding wf_num_def by (metis append_Nil2 value_end_simps(1))

lemma print_line:
  "wf_value v \<Longrightarrow> \<forall>c \<in> set (print_value (\<lambda>k. []) [] k v). line_char c"
  "\<forall>v \<in> set vs. wf_value v \<Longrightarrow> \<forall>c \<in> set (print_elems (\<lambda>k. []) [] k vs). line_char c"
  "\<forall>(key, v) \<in> set ms. wf_raw key \<and> wf_value v \<Longrightarrow> \<forall>c \<in> set (print_members (\<lambda>k. []) [] k ms). line_char c"
  by (induction "\<lambda>k::nat. [] :: string" "[] :: string" k v and "\<lambda>k::nat. [] :: string" "[] :: string" k vs
        and "\<lambda>k::nat. [] :: string" "[] :: string" k ms rule: print_value_print_elems_print_members.induct)
     (auto dest: wf_raw_line wf_num_line simp: line_char_def)

definition newline :: char where "newline = CHR 0x0A"

lemma Encode_line:
  assumes "Encode off msg = Some line" "writable msg"
  obtains body where "line = body @ [newline]" "newline \<notin> set body" "body \<noteq> []" "hd body = CHR ''{''"
proof -
  obtain ms where ms: "message_members off msg = Some ms" and line: "line = compact (V_Obj ms) @ [newline]"
    using assms(1) by (auto simp: Encode_def newline_def)
  have wf: "wf_value (V_Obj ms)" using message_members_written [OF ms assms(2)] by (rule wf_Obj)
  then have "\<forall>c \<in> set (compact (V_Obj ms)). line_char c" unfolding compact_def by (rule print_line(1))
  then have "newline \<notin> set (compact (V_Obj ms))" by (auto simp: newline_def line_char_def)
  with line that show thesis by (simp add: compact_def)
qed

section \<open>The reader\<close>

text \<open>
  \<open>bufio.Reader.ReadBytes('\n')\<close> on the bytes that are still to come: the next line with its line
  break and what follows, or an error at the end of the stream (an unfinished line is not
  used by any caller).
\<close>

definition ReadBytes :: "string \<Rightarrow> (string \<times> string) option" where
  "ReadBytes s =
     (if newline \<in> set s
      then Some (takeWhile (\<lambda>c. c \<noteq> newline) s @ [newline], tl (dropWhile (\<lambda>c. c \<noteq> newline) s))
      else None)"

lemma ReadBytes_shorter: "ReadBytes s = Some (line, rest) \<Longrightarrow> length rest < length s"
proof -
  assume "ReadBytes s = Some (line, rest)"
  then have "rest = tl (dropWhile (\<lambda>c. c \<noteq> newline) s)" "s \<noteq> []" by (auto simp: ReadBytes_def split: if_splits)
  then show ?thesis
    using length_dropWhile_le [of "\<lambda>c. c \<noteq> newline" s] by (cases s) (auto simp: less_Suc_eq_le)
qed

lemma ReadBytes_line: "newline \<notin> set body \<Longrightarrow> ReadBytes (body @ newline # rest) = Some (body @ [newline], rest)"
proof -
  assume "newline \<notin> set body"
  then have "\<forall>c \<in> set body. c \<noteq> newline" by auto
  then show ?thesis by (simp add: ReadBytes_def)
qed

text \<open>All the lines a read loop sees before the error that ends it.\<close>

function read_lines :: "string \<Rightarrow> string list" where
  "read_lines s = (case ReadBytes s of None \<Rightarrow> [] | Some (line, rest) \<Rightarrow> line # read_lines rest)"
  by pat_completeness auto
termination by (relation "measure length") (auto dest: ReadBytes_shorter)

declare read_lines.simps [simp del]

lemma read_lines_step:
  "newline \<notin> set body \<Longrightarrow> read_lines (body @ newline # rest) = (body @ [newline]) # read_lines rest"
  by (subst read_lines.simps) (simp add: ReadBytes_line)

lemma read_lines_Nil [simp]: "read_lines [] = []"
  by (simp add: read_lines.simps [of "[]"] ReadBytes_def)

lemma read_lines_concat:
  "\<forall>l \<in> set ls. \<exists>body. l = body @ [newline] \<and> newline \<notin> set body \<Longrightarrow> read_lines (concat ls) = ls"
proof (induction ls)
  case (Cons l ls)
  from Cons.prems obtain body where "l = body @ [newline]" "newline \<notin> set body" unfolding list.set by blast
  moreover have "read_lines (concat ls) = ls" by (rule Cons.IH) (use Cons.prems in \<open>unfold list.set, blast\<close>)
  ultimately show ?case using read_lines_step [of body "concat ls"] by simp
qed simp

end
