(* ===== verification/RoundTrip.thy ===== *)
theory RoundTrip
  imports Framing
begin

text \<open>
  Messages through the codec: for each message type the struct fields read back what was written,
  and decoding a message decodes its envelope on the way.
\<close>

section \<open>Reading each message back\<close>

text \<open>A message that \<open>encoding/json\<close> can carry unchanged: text in UTF-8, sorted maps, 64-bit integers.\<close>

abbreviation texts :: "string list \<Rightarrow> bool" where "texts ss \<equiv> (\<forall>s \<in> set ss. valid_utf8 s)"

definition session_ok :: "SessionStatus \<Rightarrow> bool" where
  "session_ok s \<longleftrightarrow>
     texts ([st_SessionID s, st_State s, st_TmuxPane s, st_TmuxSession s] @ st_BoundActivities s)"

definition content_ok :: "Message \<Rightarrow> bool" where
  "content_ok msg \<longleftrightarrow>
     (case msg of
        M_Emit m \<Rightarrow> texts [em_Event m, em_SessionID m, em_TmuxPane m, em_TmuxSession m, em_TmuxSocket m] \<and>
          int64 (em_Seq m) \<and> (\<forall>ms. em_Meta m = Some ms \<longrightarrow> ms \<noteq> [] \<and> json_ok (JObj ms))
      | M_Ack m \<Rightarrow> texts [ak_Error m]
      | M_Subscribe m \<Rightarrow> texts [sb_Mode m, sb_SessionID m, sb_ActivityID m, sb_ActivityPane m, sb_TmuxSocket m, sb_Title m]
      | M_Unsubscribe m \<Rightarrow> texts [us_ActivityID m]
      | M_Snapshot m \<Rightarrow> texts [sn_SessionID m, sn_State m]
      | M_StateChange m \<Rightarrow> texts [sc_SessionID m, sc_From m, sc_To m, sc_Reason m]
      | M_Dropped m \<Rightarrow> texts [dr_SessionID m, dr_Hint m]
      | M_Hello m \<Rightarrow> texts [he_ServerVersion m]
      | M_Bye m \<Rightarrow> texts [by_Reason m]
      | M_Error m \<Rightarrow> texts [er_Message m]
      | M_Status m \<Rightarrow> texts [sr_ServerVersion m] \<and> (\<forall>s \<in> set (sr_Sessions m). session_ok s)
      | _ \<Rightarrow> True)"

definition transparent :: "Message \<Rightarrow> bool" where
  "transparent msg \<longleftrightarrow> well_tagged msg \<and> writable msg \<and> content_ok msg"

lemma small_int64 [simp]: "int64 Version"
  by (simp add: int64_def Version_def)

lemma valid_ascii [simp]: "\<forall>c \<in> set s. byte c < 0x80 \<Longrightarrow> valid_utf8 s"
proof (induction s)
  case (Cons c s)
  then show ?case by (simp add: valid_utf8_def to_valid_simps)
qed (simp add: valid_utf8_def to_valid_simps)

lemma meta_field_obj:
  "snd meta_field (V_Obj ms) a = map_option (\<lambda>mp. a\<lparr>em_Meta := Some mp\<rparr>)
     (to_map ms (case em_Meta a of None \<Rightarrow> [] | Some old \<Rightarrow> old))"
  by (simp add: meta_field_def)

lemma opt_str [simp]:
  assumes "valid_utf8 s" "upd (\<lambda>_. []) a = a"
  shows "opt_step (snd (str_field name upd)) s a = Some (upd (\<lambda>_. s) a)"
  using assms by simp

lemma decode_meta:
  assumes "\<And>ms. meta = Some ms \<Longrightarrow> ms \<noteq> [] \<and> json_ok (JObj ms)" and "em_Meta a = None"
  shows "decode_members emit_fields (meta_members meta) a = Some (a\<lparr>em_Meta := meta\<rparr>)"
proof (cases meta)
  case None
  with assms(2) show ?thesis by (simp add: meta_members_def)
next
  case (Some ms)
  then have ms: "ms \<noteq> []" "json_ok (JObj ms)" using assms(1) by blast+
  then have v: "json_value (JObj ms) = V_Obj (map (\<lambda>(k, j). (quote k, json_value j)) ms)"
    by (intro json_value_obj) simp
  have "to_any (json_value (JObj ms)) = Some (JObj ms)" using ms(2) by (rule to_any_written)
  then have "to_map (map (\<lambda>(k, j). (quote k, json_value j)) ms) [] = Some ms" by (simp add: v del: json_value.simps)
  then show ?thesis
    using Some ms assms(2) by (simp add: meta_members_def v decode_member lookup_defs meta_field_obj del: json_value.simps)
qed

lemmas decode_simps = message_members_def env_members_def well_tagged_def envelope_def type_tag_def Env_def
  Envelope.defs decode_member decode_omitempty decode_omitempty [where ms = "[]", unfolded append_Nil2]
  lookup_defs zero_defs content_ok_def

lemma decode_emit:
  assumes "message_members off (M_Emit m) = Some ms" "well_tagged (M_Emit m)" "content_ok (M_Emit m)"
  shows "decode_members emit_fields ms zero_emit = Some m"
  using assms decode_meta [of "em_Meta m"]
  by (cases m) (auto simp: decode_simps)

lemma decode_strs:
  "texts ss \<Longrightarrow> decode_elems decode_str zero (map str_value ss) [] = Some ss"
  by (induction ss) (simp_all add: decode_str_def str_value_def)

lemma slice_field_arr:
  "snd (slice_field name get upd f zero) (V_Arr vs) a =
     map_option (\<lambda>xs. upd (\<lambda>_. xs) a) (decode_elems f zero vs (get a))"
  by (simp add: slice_field_def)

lemma decode_session:
  assumes "status_value off s = Some v" "session_ok s"
  shows "decode_struct session_status_fields v zero_session_status = Some s"
  using assms decode_strs [of "st_BoundActivities s" "[]"]
  by (cases s) (auto simp: status_value_def decode_struct_def session_ok_def decode_simps slice_field_arr)

lemma decode_sessions:
  assumes "those (map (status_value off) ss) = Some vs" "\<forall>s \<in> set ss. session_ok s"
  shows "decode_elems (decode_struct session_status_fields) zero_session_status vs [] = Some ss"
  using assms
  by (induction ss arbitrary: vs) (auto simp: decode_session split: option.splits)

lemma decode_ack:
  assumes "message_members off (M_Ack m) = Some ms" "well_tagged (M_Ack m)" "content_ok (M_Ack m)"
  shows "decode_members ack_fields ms zero_ack = Some m"
  using assms by (cases m) (auto simp: decode_simps)

lemma decode_subscribe:
  assumes "message_members off (M_Subscribe m) = Some ms" "well_tagged (M_Subscribe m)" "content_ok (M_Subscribe m)"
  shows "decode_members subscribe_fields ms zero_subscribe = Some m"
  using assms by (cases m) (auto simp: decode_simps)

lemma decode_state_change:
  assumes "message_members off (M_StateChange m) = Some ms" "well_tagged (M_StateChange m)" "content_ok (M_StateChange m)"
  shows "decode_members state_change_fields ms zero_state_change = Some m"
  using assms by (cases m) (auto simp: decode_simps)

lemma decode_snapshot:
  assumes "message_members off (M_Snapshot m) = Some ms" "well_tagged (M_Snapshot m)" "content_ok (M_Snapshot m)"
  shows "decode_members snapshot_fields ms zero_snapshot = Some m"
  using assms by (cases m) (auto simp: decode_simps)

lemma decode_texts:
  "message_members off (M_Unsubscribe u) = Some ms \<Longrightarrow> well_tagged (M_Unsubscribe u) \<Longrightarrow> content_ok (M_Unsubscribe u) \<Longrightarrow>
     decode_members unsubscribe_fields ms zero_unsubscribe = Some u"
  "message_members off (M_Dropped d) = Some ms \<Longrightarrow> well_tagged (M_Dropped d) \<Longrightarrow> content_ok (M_Dropped d) \<Longrightarrow>
     decode_members dropped_fields ms zero_dropped = Some d"
  "message_members off (M_Hello h) = Some ms \<Longrightarrow> well_tagged (M_Hello h) \<Longrightarrow> content_ok (M_Hello h) \<Longrightarrow>
     decode_members hello_fields ms zero_hello = Some h"
  "message_members off (M_Bye b) = Some ms \<Longrightarrow> well_tagged (M_Bye b) \<Longrightarrow> content_ok (M_Bye b) \<Longrightarrow>
     decode_members bye_fields ms zero_bye = Some b"
  "message_members off (M_Error e) = Some ms \<Longrightarrow> well_tagged (M_Error e) \<Longrightarrow> content_ok (M_Error e) \<Longrightarrow>
     decode_members error_fields ms zero_error = Some e"
  by (cases u, auto simp: decode_simps)

lemma decode_envelope:
  assumes "e_V m = Version" "valid_utf8 (e_Type m)"
  shows "decode_members env_fields (env_members m) zero_env = Some m"
  using assms by (cases m) (auto simp: decode_simps)

lemma decode_status:
  assumes "message_members off (M_Status m) = Some ms" "well_tagged (M_Status m)" "content_ok (M_Status m)"
  shows "decode_members status_fields ms zero_status = Some m"
  using assms decode_sessions [of off "sr_Sessions m"]
  by (cases m) (auto simp: decode_simps slice_field_arr)

lemma decode_bare:
  assumes "well_tagged msg" "message_members off msg = Some ms"
  shows "msg = M_Ping m \<Longrightarrow> decode_members env_fields ms zero_env = Some m"
    "msg = M_Pong m \<Longrightarrow> decode_members env_fields ms zero_env = Some m"
    "msg = M_FocusRequest m \<Longrightarrow> decode_members env_fields ms zero_env = Some m"
    "msg = M_StatusRequest m \<Longrightarrow> decode_members env_fields ms zero_env = Some m"
  using assms decode_envelope [of m]
  by (auto simp: message_members_def well_tagged_def envelope_def type_tag_def Env_def)

lemma decode_body_written:
  assumes "message_members off msg = Some ms" "transparent msg"
  shows "decode_body (type_tag msg) (V_Obj ms) = Some (Some msg)"
proof -
  have "well_tagged msg" "content_ok msg" using assms(2) by (simp_all add: transparent_def)
  then show ?thesis
    using assms(1) decode_bare [OF \<open>well_tagged msg\<close> assms(1)]
    by (cases msg)
       (simp_all add: decode_body_def type_tag_def decode_struct_def decode_emit decode_ack decode_subscribe
        decode_state_change decode_snapshot decode_texts decode_status)
qed

lemma Decode_Encode:
  assumes "Encode off msg = Some line" and "transparent msg"
  shows "Decode line = Inr msg"
proof -
  obtain ms where ms: "message_members off msg = Some ms" and line: "line = compact (V_Obj ms) @ [CHR 0x0A]"
    using assms(1) by (auto simp: Encode_def)
  have env: "envelope msg = Env (type_tag msg)" and w: "writable msg"
    using assms(2) by (simp_all add: transparent_def well_tagged_def)
  obtain rest where "ms = env_members (envelope msg) @ rest"
    and "\<forall>(key, v) \<in> set rest. name_ok key \<and> key \<noteq> ''v'' \<and> key \<noteq> ''type''"
    using members_shape [OF ms] .
  moreover have "valid_utf8 (type_tag msg)" by (cases msg) (simp_all add: type_tag_def)
  ultimately have "decode_members env_fields ms zero_env = Some (envelope msg)"
    using env_pass [of "envelope msg" rest] env by (simp add: Env_def)
  then show ?thesis
    using parse_message [OF ms w] decode_body_written [OF ms assms(2)] env
    by (simp add: Decode_def line decode_struct_def Env_def)
qed

section \<open>What a decoded message looks like\<close>

definition side :: "'a Envelope_scheme field list \<Rightarrow> bool" where
  "side fs \<longleftrightarrow> (\<forall>(n, f) \<in> set fs. \<forall>v a b. f v a = Some b \<longrightarrow> Envelope.truncate b = Envelope.truncate a)"

lemma side_simps [simp]:
  "side []" "side (f # g # fs) \<longleftrightarrow> side [f] \<and> side (g # fs)"
  by (auto simp: side_def)

lemma side_fields:
  "(\<And>s a. Envelope.truncate (upd (\<lambda>_. s) a) = Envelope.truncate a) \<Longrightarrow> side [str_field n upd]"
  "(\<And>s a. Envelope.truncate (iupd (\<lambda>_. s) a) = Envelope.truncate a) \<Longrightarrow> side [int_field n iupd]"
  "(\<And>s a. Envelope.truncate (bupd (\<lambda>_. s) a) = Envelope.truncate a) \<Longrightarrow> side [bool_field n bupd]"
  "(\<And>s a. Envelope.truncate (tupd (\<lambda>_. s) a) = Envelope.truncate a) \<Longrightarrow> side [time_field n tupd]"
  "(\<And>s a. Envelope.truncate (lupd (\<lambda>_. s) a) = Envelope.truncate a) \<Longrightarrow> side [slice_field n get lupd f z]"
  by (auto simp: side_def str_field_def int_field_def bool_field_def time_field_def slice_field_def split: jval.splits)

lemma side_meta [simp]: "side [meta_field]"
  by (auto simp: side_def meta_field_def Envelope.defs split: jval.splits)

lemma find_env:
  "find_field (env_fields @ gs) key =
     (if fold_name ''v'' = fold_name key then Some (int_field ''v'' e_V_update)
      else if fold_name ''type'' = fold_name key then Some (str_field ''type'' e_Type_update)
      else find_field gs key)"
  by (simp add: find_field_def env_fields_def int_field_def str_field_def)

lemma truncate_env [simp]:
  "Envelope.truncate (e_V_update f a) = e_V_update f (Envelope.truncate a)"
  "Envelope.truncate (e_Type_update g a) = e_Type_update g (Envelope.truncate a)"
  by (simp_all add: Envelope.defs)

lemma int_field_env:
  "snd (int_field n e_V_update) v a = Some b \<Longrightarrow>
     snd (int_field n e_V_update) v (Envelope.truncate a) = Some (Envelope.truncate b)"
  "snd (str_field n e_Type_update) v a = Some b \<Longrightarrow>
     snd (str_field n e_Type_update) v (Envelope.truncate a) = Some (Envelope.truncate b)"
  by (auto simp: int_field_def str_field_def split: jval.splits)

text \<open>Decoding a message decodes its envelope on the way.\<close>

definition apply_member :: "'a field list \<Rightarrow> string \<Rightarrow> jval \<Rightarrow> 'a \<Rightarrow> 'a option" where
  "apply_member fs key v a = (case find_field fs key of None \<Rightarrow> Some a | Some f \<Rightarrow> snd f v a)"

lemma decode_step:
  "decode_members fs ((raw, v) # ms) a =
     Option.bind (unquote raw) (\<lambda>key. Option.bind (apply_member fs key v a) (decode_members fs ms))"
  by (auto simp: decode_members.simps(2) apply_member_def split: option.split)

lemma apply_member_env:
  assumes "side gs" "apply_member (env_fields @ gs) key v a = Some b"
  shows "apply_member env_fields key v (Envelope.truncate a) = Some (Envelope.truncate b)"
proof -
  note env = find_env [of "[] :: Envelope field list" key, unfolded append_Nil2]
  consider (v) "fold_name ''v'' = fold_name key" | (type) "fold_name ''v'' \<noteq> fold_name key" "fold_name ''type'' = fold_name key"
    | (other) "fold_name ''v'' \<noteq> fold_name key" "fold_name ''type'' \<noteq> fold_name key" by blast
  then show ?thesis
  proof cases
    case v
    with assms(2) show ?thesis by (simp add: apply_member_def find_env env int_field_env)
  next
    case type
    with assms(2) show ?thesis by (simp add: apply_member_def find_env env int_field_env)
  next
    case other
    have "Envelope.truncate b = Envelope.truncate a"
    proof (cases "find_field gs key")
      case None
      with assms(2) other show ?thesis by (simp add: apply_member_def find_env)
    next
      case (Some f)
      then have "f \<in> set gs" unfolding find_field_def find_Some_iff by (metis nth_mem)
      with Some assms other show ?thesis by (auto simp: apply_member_def find_env side_def)
    qed
    with other show ?thesis by (simp add: apply_member_def env find_field_def [of "[]"])
  qed
qed

lemma decode_env_part:
  assumes "side gs"
  shows "decode_members (env_fields @ gs) ms a = Some b \<Longrightarrow>
    decode_members env_fields ms (Envelope.truncate a) = Some (Envelope.truncate b)"
proof (induction ms arbitrary: a)
  case (Cons m ms)
  then show ?case
    using apply_member_env [OF assms] by (cases m) (auto simp: decode_step bind_eq_Some_conv)
qed simp

lemma sides [simp]:
  "side [str_field ''event'' em_Event_update]" "side [str_field ''session_id'' em_SessionID_update]"
  "side [int_field ''seq'' em_Seq_update]" "side [time_field ''ts'' em_TS_update]"
  "side [str_field ''tmux_pane'' em_TmuxPane_update]" "side [str_field ''tmux_session'' em_TmuxSession_update]"
  "side [str_field ''tmux_socket'' em_TmuxSocket_update]"
  "side [bool_field ''ok'' ak_Ok_update]" "side [str_field ''error'' ak_Error_update]"
  "side [str_field ''mode'' sb_Mode_update]" "side [str_field ''session_id'' sb_SessionID_update]"
  "side [str_field ''activity_id'' sb_ActivityID_update]" "side [str_field ''activity_pane'' sb_ActivityPane_update]"
  "side [str_field ''tmux_socket'' sb_TmuxSocket_update]" "side [str_field ''title'' sb_Title_update]"
  "side [str_field ''activity_id'' us_ActivityID_update]"
  "side [str_field ''session_id'' sn_SessionID_update]" "side [str_field ''state'' sn_State_update]"
  "side [time_field ''ts'' sn_TS_update]"
  "side [str_field ''session_id'' sc_SessionID_update]" "side [str_field ''from'' sc_From_update]"
  "side [str_field ''to'' sc_To_update]" "side [str_field ''reason'' sc_Reason_update]" "side [time_field ''ts'' sc_TS_update]"
  "side [str_field ''session_id'' dr_SessionID_update]" "side [str_field ''hint'' dr_Hint_update]"
  "side [str_field ''server_version'' he_ServerVersion_update]" "side [str_field ''reason'' by_Reason_update]"
  "side [str_field ''message'' er_Message_update]" "side [str_field ''server_version'' sr_ServerVersion_update]"
  "side [slice_field ''sessions'' sr_Sessions sr_Sessions_update f z]"
  by (rule side_fields, simp add: Envelope.defs)+

lemma decode_struct_env:
  assumes "side gs" "decode_struct (env_fields @ gs) v a = Some b"
  shows "decode_struct env_fields v (Envelope.truncate a) = Some (Envelope.truncate b)"
  using assms decode_env_part [OF assms(1)] by (auto simp: decode_struct_def split: jval.splits)

lemma decode_struct_tag:
  assumes "side gs" "decode_struct fs v z = Some b" "fs = env_fields @ gs" "Envelope.truncate z = zero_env"
    and "decode_struct env_fields v zero_env = Some env"
  shows "Envelope.truncate b = env"
  using decode_struct_env [OF assms(1)] assms(2-5) by fastforce

end
