(* ===== verification/Conn.thy ===== *)
theory Conn
  imports RoundTrip "HOL-Library.Word"
begin

text \<open>
  One connection of the server (\<open>conn\<close> in \<open>daemon/internal/server/server.go\<close>): writes guarded
  by a mutex, so that each \<open>Send\<close> is one step, the \<open>dead\<close> flag, and \<open>close\<close>; and the peer
  credentials (\<open>auth_linux.go\<close>, \<open>auth_darwin.go\<close>).
\<close>

section \<open>Writing and closing\<close>

text \<open>
  \<open>cn_out\<close> are the bytes the kernel has taken for the peer, \<open>cn_closes\<close> counts the calls of
  \<open>uc.Close\<close>. A write that fails (a broken pipe, or the deadline of 5 seconds) may have handed over
  some of the bytes.
\<close>

record Conn =
  cn_dead :: bool
  cn_out :: string
  cn_closes :: nat

definition newConn :: Conn where
  "newConn = \<lparr>cn_dead = False, cn_out = [], cn_closes = 0\<rparr>"

datatype write_result = Wrote | WriteFailed nat

datatype send_error = EncodeError | ErrClosedPipe | WriteError

definition conn_Send :: "int \<Rightarrow> write_result \<Rightarrow> Message \<Rightarrow> Conn \<Rightarrow> send_error option \<times> Conn" where
  "conn_Send off w msg c =
     (case Encode off msg of
        None \<Rightarrow> (Some EncodeError, c)
      | Some b \<Rightarrow>
          if cn_dead c then (Some ErrClosedPipe, c)
          else
            (case w of
               WriteFailed n \<Rightarrow> (Some WriteError, c\<lparr>cn_out := cn_out c @ take n b, cn_dead := True\<rparr>)
             | Wrote \<Rightarrow> (None, c\<lparr>cn_out := cn_out c @ b\<rparr>)))"

definition conn_close :: "Conn \<Rightarrow> Conn" where
  "conn_close c = (if \<not> cn_dead c then c\<lparr>cn_dead := True, cn_closes := Suc (cn_closes c)\<rparr> else c)"

text \<open>What the goroutines that share a connection do to it, in the order of the mutex.\<close>

datatype conn_call = OpSend int write_result Message | OpClose

fun conn_op :: "conn_call \<Rightarrow> Conn \<Rightarrow> Conn" where
  "conn_op (OpSend off w msg) c = snd (conn_Send off w msg c)"
| "conn_op OpClose c = conn_close c"

text \<open>The frames of the messages that reached the peer whole: those before the first failure or close.\<close>

fun whole_frames :: "conn_call list \<Rightarrow> string list" where
  "whole_frames [] = []"
| "whole_frames (OpClose # ops) = []"
| "whole_frames (OpSend off w msg # ops) =
     (case Encode off msg of
        None \<Rightarrow> whole_frames ops
      | Some b \<Rightarrow> (case w of Wrote \<Rightarrow> b # whole_frames ops | WriteFailed n \<Rightarrow> []))"

text \<open>A failed write has not taken all the bytes; the maps in a message hold JSON numbers.\<close>

fun op_ok :: "conn_call \<Rightarrow> bool" where
  "op_ok (OpSend off w msg) \<longleftrightarrow> writable msg \<and>
     (\<forall>n b. w = WriteFailed n \<longrightarrow> Encode off msg = Some b \<longrightarrow> n < length b)"
| "op_ok OpClose \<longleftrightarrow> True"

lemma dead_op: "cn_dead c \<Longrightarrow> conn_op x c = c"
  by (cases x) (auto simp: conn_Send_def conn_close_def split: option.splits)

lemma dead_ops: "cn_dead c \<Longrightarrow> fold conn_op ops c = c"
  by (induction ops) (simp_all add: dead_op)

lemma closes_op: "cn_closes c \<le> (if cn_dead c then 1 else 0) \<Longrightarrow>
    cn_closes (conn_op x c) \<le> (if cn_dead (conn_op x c) then 1 else 0)"
  by (cases x) (auto simp: conn_Send_def conn_close_def split: option.splits write_result.splits if_splits)

lemma closes_ops:
  "cn_closes c \<le> (if cn_dead c then 1 else 0) \<Longrightarrow>
     cn_closes (fold conn_op ops c) \<le> (if cn_dead (fold conn_op ops c) then 1 else 0)"
  by (induction ops arbitrary: c) (simp_all only: fold.simps comp_apply id_apply closes_op)

text \<open>The bytes at the peer: whole frames, then at most the beginning of one more.\<close>

lemma out_ops:
  assumes "\<forall>x \<in> set ops. op_ok x" "\<not> cn_dead c"
  obtains part where "cn_out (fold conn_op ops c) = cn_out c @ concat (whole_frames ops) @ part"
    and "newline \<notin> set part"
proof -
  have "\<exists>part. cn_out (fold conn_op ops c) = cn_out c @ concat (whole_frames ops) @ part \<and> newline \<notin> set part"
    using assms
  proof (induction ops arbitrary: c)
    case (Cons x ops)
    show ?case
    proof (cases x)
      case OpClose
      with Cons.prems show ?thesis by (simp add: conn_close_def dead_ops)
    next
      case (OpSend off w msg)
      show ?thesis
      proof (cases "Encode off msg")
        case None
        with OpSend Cons show ?thesis by (simp add: conn_Send_def)
      next
        case (Some b)
        show ?thesis
        proof (cases w)
          case Wrote
          with OpSend Some Cons.IH [of "c\<lparr>cn_out := cn_out c @ b\<rparr>"] Cons.prems show ?thesis by (simp add: conn_Send_def)
        next
          case (WriteFailed n)
          have "writable msg" "n < length b" using Cons.prems OpSend Some WriteFailed by auto
          then obtain body where "b = body @ [newline]" "newline \<notin> set body"
            using Encode_line [OF Some] by blast
          with \<open>n < length b\<close> have "newline \<notin> set (take n b)" by (auto dest: in_set_takeD)
          with OpSend Some WriteFailed Cons.prems(2) show ?thesis by (simp add: conn_Send_def dead_ops)
        qed
      qed
    qed
  qed simp
  with that show thesis by blast
qed

lemma whole_frames_lines:
  "\<forall>x \<in> set ops. op_ok x \<Longrightarrow> l \<in> set (whole_frames ops) \<Longrightarrow> \<exists>body. l = body @ [newline] \<and> newline \<notin> set body"
proof (induction ops rule: whole_frames.induct)
  case (3 off w msg ops)
  then show ?case
    by (auto split: option.splits write_result.splits) (meson Encode_line)+
qed simp_all

lemma read_lines_part: "newline \<notin> set part \<Longrightarrow> read_lines part = []"
  by (subst read_lines.simps) (simp add: ReadBytes_def)

lemma read_lines_append:
  "\<forall>l \<in> set ls. \<exists>body. l = body @ [newline] \<and> newline \<notin> set body \<Longrightarrow> newline \<notin> set part \<Longrightarrow>
     read_lines (concat ls @ part) = ls"
proof (induction ls)
  case (Cons l ls)
  from Cons.prems obtain body where l: "l = body @ [newline]" "newline \<notin> set body" unfolding list.set by blast
  have "read_lines (concat ls @ part) = ls"
    by (rule Cons.IH) (use Cons.prems in \<open>unfold list.set, blast+\<close>)
  with l read_lines_step [of body "concat ls @ part"] show ?case by simp
qed (simp add: read_lines_part)

lemma peer_reads:
  assumes "\<forall>x \<in> set ops. op_ok x"
  shows "read_lines (cn_out (fold conn_op ops newConn)) = whole_frames ops"
proof -
  have "\<not> cn_dead newConn" by (simp add: newConn_def)
  from out_ops [OF assms this] obtain part where out: "cn_out (fold conn_op ops newConn) =
      cn_out newConn @ concat (whole_frames ops) @ part" and part: "newline \<notin> set part" .
  have "\<forall>l \<in> set (whole_frames ops). \<exists>body. l = body @ [newline] \<and> newline \<notin> set body"
    using whole_frames_lines [OF assms] by blast
  from read_lines_append [OF this part] out show ?thesis by (simp add: newConn_def)
qed

section \<open>Peer credentials\<close>

text \<open>
  What the kernel answers to the query for the credentials of the peer: on Linux an error, a nil
  pointer or the uid; on Darwin the error number, the number of bytes written and the struct.
\<close>

record xucred =
  xu_Version :: "32 word"
  xu_Euid :: "32 word"
  xu_Egid :: "32 word"
  xu_Ngroups :: "32 word"
  xu_Groups :: "32 word list"

datatype credentials =
  Ucred "(string + (32 word) option)"
| Xucred "64 word" "32 word" xucred

definition peerUID_linux :: "(string + (32 word) option) \<Rightarrow> 32 word \<times> bool" where
  "peerUID_linux answer =
     (case answer of Inl err \<Rightarrow> (0, False) | Inr None \<Rightarrow> (0, False) | Inr (Some uid) \<Rightarrow> (uid, True))"

definition peerUID_darwin :: "64 word \<Rightarrow> 32 word \<Rightarrow> xucred \<Rightarrow> 32 word \<times> bool" where
  "peerUID_darwin errno credLen cred =
     (if errno \<noteq> 0 \<or> credLen < 12 then (0, False) else (xu_Euid cred, True))"

text \<open>\<open>SyscallConn\<close> itself can fail (\<open>None\<close>).\<close>

definition conn_peerUID :: "credentials option \<Rightarrow> 32 word \<times> bool" where
  "conn_peerUID answer =
     (case answer of
        None \<Rightarrow> (0, False)
      | Some (Ucred a) \<Rightarrow> peerUID_linux a
      | Some (Xucred errno credLen cred) \<Rightarrow> peerUID_darwin errno credLen cred)"

text \<open>The check of \<open>serve\<close>: \<open>getuid\<close> is converted to 32 bits.\<close>

definition peer_accepted :: "int \<Rightarrow> credentials option \<Rightarrow> bool" where
  "peer_accepted getuid answer =
     (case conn_peerUID answer of (uid, ok) \<Rightarrow> \<not> (\<not> ok \<or> uid \<noteq> word_of_int getuid))"

text \<open>The uid the kernel vouches for, if it vouches for one.\<close>

definition vouched :: "credentials option \<Rightarrow> (32 word) option" where
  "vouched answer =
     (case answer of
        Some (Ucred (Inr (Some uid))) \<Rightarrow> Some uid
      | Some (Xucred errno credLen cred) \<Rightarrow> if errno = 0 \<and> 12 \<le> credLen then Some (xu_Euid cred) else None
      | _ \<Rightarrow> None)"

lemma peer_accepted_iff: "peer_accepted getuid answer \<longleftrightarrow> vouched answer = Some (word_of_int getuid)"
  by (auto simp: peer_accepted_def conn_peerUID_def peerUID_linux_def peerUID_darwin_def vouched_def
      split: option.splits credentials.splits sum.splits)

end
