(* ===== verification/Server.thy ===== *)
theory Server
  imports Conn Daemon
begin

text \<open>
  The server (\<open>daemon/internal/server/server.go\<close>) between \<open>listen\<close> and \<open>teardown\<close>: accepting
  connections, the check of the peer, the read loop that decodes lines and calls the handler, the
  table of connections, and shutting down. The handler is an argument, as in the code; what the
  server relies on is the interface \<open>handler_contract\<close>.
\<close>

section \<open>State\<close>

text \<open>A handler may call \<open>Send\<close> on connections: the calls are returned, in order.\<close>

type_synonym sends = "(sink \<times> Message) list"

record ('e, 'h) Handler =
  ha_Handle :: "'e \<Rightarrow> sink \<Rightarrow> Message \<Rightarrow> 'h \<Rightarrow> 'h \<times> sends"
  ha_Closed :: "'e \<Rightarrow> sink \<Rightarrow> 'h \<Rightarrow> 'h \<times> sends"

record Options =
  op_SocketPath :: string
  op_InfoPath :: string
  op_Version :: string

text \<open>
  How far the goroutine \<open>serve\<close> of a connection has come: accepted, in the table, greeted and
  reading, returned, and after each of the three deferred calls.
\<close>

datatype phase = Accepted | Tracked | Reading | Returned | Shut | Untracked | Gone

record Link =
  li_conn :: Conn
  li_phase :: phase
  li_ok :: bool

record 'h Server =
  sv_opts :: Options
  sv_handler :: 'h
  sv_conns :: "(sink, unit) gomap"
  sv_links :: "Link list"
  sv_listening :: bool
  sv_doomed :: "sink list"

definition New :: "Options \<Rightarrow> 'h \<Rightarrow> 'h Server" where
  "New opts h = \<lparr>sv_opts = opts, sv_handler = h, sv_conns = [], sv_links = [], sv_listening = True, sv_doomed = []\<rparr>"

text \<open>
  What the environment decides during one call: the handler's own choices, the result of each
  write, the daemon's time zone and the text of an error.
\<close>

record 'e Env =
  en_rt :: 'e
  en_write :: "nat \<Rightarrow> write_result"
  en_zone :: int
  en_errtext :: "decode_error \<Rightarrow> string"

section \<open>Operations\<close>

definition track :: "sink \<Rightarrow> bool \<Rightarrow> 'h Server \<Rightarrow> 'h Server" where
  "track sk on s =
     (if on then s\<lparr>sv_conns := AList.update sk () (sv_conns s)\<rparr>
      else s\<lparr>sv_conns := AList.delete sk (sv_conns s)\<rparr>)"

definition modify_link :: "sink \<Rightarrow> (Link \<Rightarrow> Link) \<Rightarrow> 'h Server \<Rightarrow> 'h Server" where
  "modify_link sk f s = s\<lparr>sv_links := (sv_links s)[sk := f (sv_links s ! sk)]\<rparr>"

definition set_phase :: "sink \<Rightarrow> phase \<Rightarrow> 'h Server \<Rightarrow> 'h Server" where
  "set_phase sk ph = modify_link sk (\<lambda>l. l\<lparr>li_phase := ph\<rparr>)"

definition send_to :: "int \<Rightarrow> write_result \<Rightarrow> sink \<Rightarrow> Message \<Rightarrow> 'h Server \<Rightarrow> 'h Server" where
  "send_to off w sk msg = modify_link sk (\<lambda>l. l\<lparr>li_conn := snd (conn_Send off w msg (li_conn l))\<rparr>)"

definition close_link :: "sink \<Rightarrow> 'h Server \<Rightarrow> 'h Server" where
  "close_link sk = modify_link sk (\<lambda>l. l\<lparr>li_conn := conn_close (li_conn l)\<rparr>)"

fun deliver :: "int \<Rightarrow> (nat \<Rightarrow> write_result) \<Rightarrow> nat \<Rightarrow> sends \<Rightarrow> 'h Server \<Rightarrow> 'h Server" where
  "deliver off wr n [] s = s"
| "deliver off wr n ((sk, msg) # out) s = deliver off wr (Suc n) out (send_to off (wr n) sk msg s)"

definition call :: "'e Env \<Rightarrow> 'h \<times> sends \<Rightarrow> 'h Server \<Rightarrow> 'h Server" where
  "call en result s =
     (case result of (h, out) \<Rightarrow> deliver (en_zone en) (en_write en) 0 out (s\<lparr>sv_handler := h\<rparr>))"

text \<open>One line of the read loop of \<open>serve\<close>.\<close>

definition serve_line :: "('e, 'h) Handler \<Rightarrow> 'e Env \<Rightarrow> sink \<Rightarrow> string \<Rightarrow> 'h Server \<Rightarrow> 'h Server" where
  "serve_line H en sk line s =
     (if TrimSpace line = [] then s
      else
        (case Decode line of
           Inl (ErrUnknownType t) \<Rightarrow> s
         | Inl err \<Rightarrow> send_to (en_zone en) (en_write en 0) sk (ErrorMsg (en_errtext en err)) s
         | Inr msg \<Rightarrow> call en (ha_Handle H (en_rt en) sk msg (sv_handler s)) s))"

text \<open>The beginning of \<open>serve\<close>: the check of the peer, then the greeting.\<close>

definition serve_auth :: "int \<Rightarrow> 'e Env \<Rightarrow> sink \<Rightarrow> credentials option \<Rightarrow> 'h Server \<Rightarrow> 'h Server" where
  "serve_auth getuid en sk answer s =
     (if \<not> peer_accepted getuid answer then set_phase sk Returned s
      else
        send_to (en_zone en) (en_write en 0) sk (Hello (op_Version (sv_opts s)))
          (modify_link sk (\<lambda>l. l\<lparr>li_phase := Reading, li_ok := True\<rparr>) s))"

text \<open>The end of \<open>serve\<close>, its deferred calls, and the whole of it without interruption.\<close>

definition serve_end :: "('e, 'h) Handler \<Rightarrow> 'e Env \<Rightarrow> sink \<Rightarrow> 'h Server \<Rightarrow> 'h Server" where
  "serve_end H en sk s =
     (let s1 = track sk False (close_link sk s)
      in call en (ha_Closed H (en_rt en) sk (sv_handler s1)) (set_phase sk Gone s1))"

definition accept :: "'h Server \<Rightarrow> 'h Server" where
  "accept s = s\<lparr>sv_links := sv_links s @ [\<lparr>li_conn = newConn, li_phase = Accepted, li_ok = False\<rparr>]\<rparr>"

fun serve_lines :: "('e, 'h) Handler \<Rightarrow> (nat \<Rightarrow> 'e Env) \<Rightarrow> nat \<Rightarrow> sink \<Rightarrow> string list \<Rightarrow> 'h Server \<Rightarrow> 'h Server" where
  "serve_lines H en n sk [] s = s"
| "serve_lines H en n sk (line # ls) s = serve_lines H en (Suc n) sk ls (serve_line H (en n) sk line s)"

definition serve ::
  "('e, 'h) Handler \<Rightarrow> int \<Rightarrow> (nat \<Rightarrow> 'e Env) \<Rightarrow> sink \<Rightarrow> credentials option \<Rightarrow> string \<Rightarrow> 'h Server \<Rightarrow> 'h Server" where
  "serve H getuid en sk answer stream s =
     (let s1 = serve_auth getuid (en 0) sk answer (track sk True (set_phase sk Tracked s))
      in serve_end H (en 1) sk
           (if peer_accepted getuid answer then set_phase sk Returned (serve_lines H en 2 sk (read_lines stream) s1)
            else s1))"

section \<open>All connections at once\<close>

text \<open>
  The accept loop, one goroutine \<open>serve\<close> per connection, work the handler does on its own
  (\<open>work\<close>, with the sends it makes) and the end of \<open>Run\<close>, interleaved in any order.
\<close>

datatype server_label =
  S_Accept
| S_Track sink
| S_Auth sink "credentials option"
| S_Line sink string
| S_Return sink
| S_Close sink
| S_Untrack sink
| S_Closed sink
| S_Work sends
| S_Shutdown
| S_Teardown sink

definition phase_of :: "'h Server \<Rightarrow> sink \<Rightarrow> phase option" where
  "phase_of s sk = (if sk < length (sv_links s) then Some (li_phase (sv_links s ! sk)) else None)"

inductive server_step ::
  "('e, 'h) Handler \<Rightarrow> ('h \<Rightarrow> sends \<Rightarrow> 'h \<Rightarrow> bool) \<Rightarrow> ('e \<Rightarrow> bool) \<Rightarrow> int \<Rightarrow> 'h Server \<Rightarrow> server_label \<Rightarrow> 'h Server \<Rightarrow> bool"
  for H work good getuid where
  accept: "sv_listening s \<Longrightarrow> server_step H work good getuid s S_Accept (accept s)"
| track: "phase_of s sk = Some Accepted \<Longrightarrow>
    server_step H work good getuid s (S_Track sk) (track sk True (set_phase sk Tracked s))"
| auth: "phase_of s sk = Some Tracked \<Longrightarrow> good (en_rt en) \<Longrightarrow>
    server_step H work good getuid s (S_Auth sk answer) (serve_auth getuid en sk answer s)"
| line: "phase_of s sk = Some Reading \<Longrightarrow> good (en_rt en) \<Longrightarrow>
    server_step H work good getuid s (S_Line sk line) (serve_line H en sk line s)"
| return: "phase_of s sk = Some Reading \<Longrightarrow>
    server_step H work good getuid s (S_Return sk) (set_phase sk Returned s)"
| close: "phase_of s sk = Some Returned \<Longrightarrow>
    server_step H work good getuid s (S_Close sk) (set_phase sk Shut (close_link sk s))"
| untrack: "phase_of s sk = Some Shut \<Longrightarrow>
    server_step H work good getuid s (S_Untrack sk) (set_phase sk Untracked (track sk False s))"
| closed: "phase_of s sk = Some Untracked \<Longrightarrow> good (en_rt en) \<Longrightarrow>
    server_step H work good getuid s (S_Closed sk)
      (call en (ha_Closed H (en_rt en) sk (sv_handler s)) (set_phase sk Gone s))"
| work: "work (sv_handler s) out h \<Longrightarrow> good (en_rt en) \<Longrightarrow>
    server_step H work good getuid s (S_Work out) (call en (h, out) s)"
| shutdown: "sv_listening s \<Longrightarrow>
    server_step H work good getuid s S_Shutdown (s\<lparr>sv_listening := False, sv_doomed := map fst (sv_conns s)\<rparr>)"
| teardown: "sk \<in> set (sv_doomed s) \<Longrightarrow>
    server_step H work good getuid s (S_Teardown sk)
      (close_link sk (s\<lparr>sv_doomed := remove1 sk (sv_doomed s)\<rparr>))"

inductive_cases server_stepE: "server_step H work good getuid s l t"

section \<open>Frames\<close>

lemma modify_link_sel [simp]:
  "sv_handler (modify_link sk f s) = sv_handler s" "sv_opts (modify_link sk f s) = sv_opts s"
  "sv_conns (modify_link sk f s) = sv_conns s" "length (sv_links (modify_link sk f s)) = length (sv_links s)"
  "sv_listening (modify_link sk f s) = sv_listening s" "sv_doomed (modify_link sk f s) = sv_doomed s"
  by (simp_all add: modify_link_def)

lemma modify_link_nth:
  "i < length (sv_links s) \<Longrightarrow>
     sv_links (modify_link sk f s) ! i = (if i = sk then f (sv_links s ! i) else sv_links s ! i)"
  by (simp add: modify_link_def nth_list_update)

lemmas op_defs = set_phase_def send_to_def close_link_def

lemma op_sel [simp]:
  "sv_handler (set_phase sk ph s) = sv_handler s" "sv_handler (send_to off w sk msg s) = sv_handler s"
  "sv_handler (close_link sk s) = sv_handler s"
  "sv_conns (set_phase sk ph s) = sv_conns s" "sv_conns (send_to off w sk msg s) = sv_conns s"
  "sv_conns (close_link sk s) = sv_conns s"
  "sv_opts (set_phase sk ph s) = sv_opts s" "sv_opts (send_to off w sk msg s) = sv_opts s"
  "sv_opts (close_link sk s) = sv_opts s"
  "sv_listening (set_phase sk ph s) = sv_listening s" "sv_listening (send_to off w sk msg s) = sv_listening s"
  "sv_listening (close_link sk s) = sv_listening s"
  "sv_doomed (set_phase sk ph s) = sv_doomed s" "sv_doomed (send_to off w sk msg s) = sv_doomed s"
  "sv_doomed (close_link sk s) = sv_doomed s"
  "length (sv_links (set_phase sk ph s)) = length (sv_links s)"
  "length (sv_links (send_to off w sk msg s)) = length (sv_links s)"
  "length (sv_links (close_link sk s)) = length (sv_links s)"
  by (simp_all add: op_defs)

lemma same_handler: "sv_handler s = h \<Longrightarrow> s\<lparr>sv_handler := h\<rparr> = s"
  by (cases s) simp

lemma track_sel [simp]:
  "sv_handler (track sk on s) = sv_handler s" "sv_links (track sk on s) = sv_links s"
  "sv_opts (track sk on s) = sv_opts s" "sv_listening (track sk on s) = sv_listening s"
  "sv_doomed (track sk on s) = sv_doomed s"
  "fst ` set (sv_conns (track sk on s)) = (if on then insert sk (fst ` set (sv_conns s)) else fst ` set (sv_conns s) - {sk})"
  by (auto simp: track_def keys_update set_delete)

lemma conn_Send_facts:
  "cn_closes (snd (conn_Send off w msg c)) = cn_closes c"
  "cn_dead c \<Longrightarrow> snd (conn_Send off w msg c) = c"
  by (auto simp: conn_Send_def split: option.splits write_result.splits)

text \<open>What sends do to a connection: nothing unless it is addressed, and nothing when it is dead.\<close>

definition only_sent :: "Link \<Rightarrow> Link \<Rightarrow> bool" where
  "only_sent l l' \<longleftrightarrow> li_phase l' = li_phase l \<and> li_ok l' = li_ok l \<and>
     cn_closes (li_conn l') = cn_closes (li_conn l) \<and> (cn_dead (li_conn l) \<longrightarrow> li_conn l' = li_conn l)"

lemma only_sent_refl [simp]: "only_sent l l"
  by (simp add: only_sent_def)

lemma only_sent_trans: "only_sent k l \<Longrightarrow> only_sent l m \<Longrightarrow> only_sent k m"
  by (auto simp: only_sent_def)

lemma send_to_nth:
  "i < length (sv_links s) \<Longrightarrow> only_sent (sv_links s ! i) (sv_links (send_to off w sk msg s) ! i)"
  "i < length (sv_links s) \<Longrightarrow> i \<noteq> sk \<Longrightarrow> sv_links (send_to off w sk msg s) ! i = sv_links s ! i"
  by (auto simp: send_to_def modify_link_nth only_sent_def conn_Send_facts)

lemma deliver_sel [simp]:
  "sv_handler (deliver off wr n out s) = sv_handler s" "sv_conns (deliver off wr n out s) = sv_conns s"
  "sv_opts (deliver off wr n out s) = sv_opts s" "sv_listening (deliver off wr n out s) = sv_listening s"
  "sv_doomed (deliver off wr n out s) = sv_doomed s" "length (sv_links (deliver off wr n out s)) = length (sv_links s)"
  by (induction off wr n out s rule: deliver.induct) simp_all

lemma deliver_nth:
  assumes "i < length (sv_links s)"
  shows "only_sent (sv_links s ! i) (sv_links (deliver off wr n out s) ! i)"
    and "i \<notin> fst ` set out \<Longrightarrow> sv_links (deliver off wr n out s) ! i = sv_links s ! i"
  using assms
  by (induction off wr n out s rule: deliver.induct) (auto simp: send_to_nth intro: only_sent_trans [OF send_to_nth(1)])

lemma call_sel [simp]:
  "sv_handler (call en r s) = fst r" "sv_conns (call en r s) = sv_conns s" "sv_opts (call en r s) = sv_opts s"
  "sv_listening (call en r s) = sv_listening s" "sv_doomed (call en r s) = sv_doomed s"
  "length (sv_links (call en r s)) = length (sv_links s)"
  by (simp_all add: call_def case_prod_beta)

lemma call_nth:
  assumes "i < length (sv_links s)"
  shows "only_sent (sv_links s ! i) (sv_links (call en r s) ! i)"
    and "i \<notin> fst ` set (snd r) \<Longrightarrow> sv_links (call en r s) ! i = sv_links s ! i"
  using assms deliver_nth [of i "s\<lparr>sv_handler := fst r\<rparr>"] by (simp_all add: call_def case_prod_beta)

lemma sent_keeps [simp]:
  "i < length (sv_links s) \<Longrightarrow> li_ok (sv_links (send_to off w sk msg s) ! i) = li_ok (sv_links s ! i)"
  "i < length (sv_links s) \<Longrightarrow> li_phase (sv_links (send_to off w sk msg s) ! i) = li_phase (sv_links s ! i)"
  "i < length (sv_links s) \<Longrightarrow> li_ok (sv_links (call en r s) ! i) = li_ok (sv_links s ! i)"
  "i < length (sv_links s) \<Longrightarrow> li_phase (sv_links (call en r s) ! i) = li_phase (sv_links s ! i)"
  using send_to_nth(1) call_nth(1) unfolding only_sent_def by metis+

section \<open>The interface of the handler\<close>

text \<open>
  \<open>known\<close>: the connections the handler has been given and may still write to; \<open>live\<close>: those
  it keeps for messages to come. A handler writes to no others, and forgets a connection that
  is closed.
\<close>

locale handler_contract =
  fixes H :: "('e, 'h) Handler" and work :: "'h \<Rightarrow> sends \<Rightarrow> 'h \<Rightarrow> bool" and good :: "'e \<Rightarrow> bool"
    and inv :: "'h \<Rightarrow> bool" and known :: "'h \<Rightarrow> sink set" and live :: "'h \<Rightarrow> sink set"
  assumes handle_inv: "inv h \<Longrightarrow> good e \<Longrightarrow> inv (fst (ha_Handle H e sk msg h))"
    and closed_inv: "inv h \<Longrightarrow> good e \<Longrightarrow> inv (fst (ha_Closed H e sk h))"
    and work_inv: "inv h \<Longrightarrow> work h out h' \<Longrightarrow> inv h'"
    and handle_known: "inv h \<Longrightarrow> good e \<Longrightarrow> known (fst (ha_Handle H e sk msg h)) \<subseteq> insert sk (known h)"
    and closed_known: "inv h \<Longrightarrow> good e \<Longrightarrow> known (fst (ha_Closed H e sk h)) \<subseteq> known h"
    and work_known: "inv h \<Longrightarrow> work h out h' \<Longrightarrow> known h' \<subseteq> known h"
    and handle_out: "inv h \<Longrightarrow> good e \<Longrightarrow> fst ` set (snd (ha_Handle H e sk msg h)) \<subseteq> insert sk (known h)"
    and closed_out: "inv h \<Longrightarrow> good e \<Longrightarrow> fst ` set (snd (ha_Closed H e sk h)) \<subseteq> known h"
    and work_out: "inv h \<Longrightarrow> work h out h' \<Longrightarrow> fst ` set out \<subseteq> known h"
    and live_known: "inv h \<Longrightarrow> live h \<subseteq> known h"
    and handle_live: "inv h \<Longrightarrow> good e \<Longrightarrow> live (fst (ha_Handle H e sk msg h)) \<subseteq> insert sk (live h)"
    and closed_live: "inv h \<Longrightarrow> good e \<Longrightarrow> live (fst (ha_Closed H e sk h)) \<subseteq> live h - {sk}"
    and work_live: "inv h \<Longrightarrow> work h out h' \<Longrightarrow> live h' \<subseteq> live h"
begin

definition link_inv :: "'h Server \<Rightarrow> sink \<Rightarrow> Link \<Rightarrow> bool" where
  "link_inv s sk l \<longleftrightarrow>
     (\<not> li_ok l \<longrightarrow> cn_out (li_conn l) = [] \<and> sk \<notin> known (sv_handler s)) \<and>
     (li_phase l = Reading \<longrightarrow> li_ok l) \<and>
     (sk \<in> live (sv_handler s) \<longrightarrow> li_phase l \<noteq> Gone) \<and>
     (sk \<in> fst ` set (sv_conns s) \<longleftrightarrow> li_phase l \<in> {Tracked, Reading, Returned, Shut}) \<and>
     (li_phase l \<in> {Shut, Untracked, Gone} \<longrightarrow> cn_dead (li_conn l)) \<and>
     cn_closes (li_conn l) \<le> (if cn_dead (li_conn l) then 1 else 0)"

definition server_inv :: "'h Server \<Rightarrow> bool" where
  "server_inv s \<longleftrightarrow> inv (sv_handler s) \<and> known (sv_handler s) \<subseteq> {..<length (sv_links s)} \<and>
     fst ` set (sv_conns s) \<subseteq> {..<length (sv_links s)} \<and> (\<forall>sk < length (sv_links s). link_inv s sk (sv_links s ! sk))"

lemma server_invI:
  assumes "server_inv s" "inv (sv_handler t)"
    and "known (sv_handler t) \<subseteq> {..<length (sv_links t)}" "fst ` set (sv_conns t) \<subseteq> {..<length (sv_links t)}"
    and "\<And>i. i < length (sv_links t) \<Longrightarrow>
      (i < length (sv_links s) \<Longrightarrow> link_inv s i (sv_links s ! i)) \<Longrightarrow> link_inv t i (sv_links t ! i)"
  shows "server_inv t"
  using assms unfolding server_inv_def by blast

lemma phase_ofD: "phase_of s sk = Some ph \<Longrightarrow> sk < length (sv_links s) \<and> li_phase (sv_links s ! sk) = ph"
  by (simp add: phase_of_def split: if_splits)

lemma inv_accept:
  assumes "server_inv s"
  shows "server_inv (accept s)"
proof (rule server_invI [OF assms])
  let ?n = "length (sv_links s)"
  show "inv (sv_handler (accept s))" using assms by (simp add: server_inv_def accept_def)
  show "known (sv_handler (accept s)) \<subseteq> {..<length (sv_links (accept s))}"
    using assms by (fastforce simp: server_inv_def accept_def)
  show "fst ` set (sv_conns (accept s)) \<subseteq> {..<length (sv_links (accept s))}"
    using assms by (fastforce simp: server_inv_def accept_def)
  fix i
  assume i: "i < length (sv_links (accept s))" and old: "i < ?n \<Longrightarrow> link_inv s i (sv_links s ! i)"
  show "link_inv (accept s) i (sv_links (accept s) ! i)"
  proof (cases "i < ?n")
    case True
    with old show ?thesis by (simp add: accept_def nth_append link_inv_def)
  next
    case False
    with i have "i = ?n" by (simp add: accept_def)
    moreover from this have "i \<notin> known (sv_handler s)" "i \<notin> live (sv_handler s)" "i \<notin> fst ` set (sv_conns s)"
      using assms live_known [of "sv_handler s"] by (auto simp: server_inv_def)
    ultimately show ?thesis by (simp add: accept_def link_inv_def newConn_def)
  qed
qed

lemma link_inv_sent:
  assumes "link_inv s i l" "only_sent l l'" "sv_conns t = sv_conns s"
    and "i \<in> known (sv_handler t) \<Longrightarrow> i \<in> known (sv_handler s) \<or> li_ok l"
    and "i \<in> live (sv_handler t) \<Longrightarrow> i \<in> live (sv_handler s) \<or> li_phase l \<noteq> Gone"
    and "\<not> li_ok l \<Longrightarrow> l' = l"
  shows "link_inv t i l'"
proof -
  note l = assms(1) [unfolded link_inv_def] and sent = assms(2) [unfolded only_sent_def]
  have "\<not> li_ok l' \<longrightarrow> cn_out (li_conn l') = [] \<and> i \<notin> known (sv_handler t)" using l sent assms(4,6) by metis
  moreover have "li_phase l' = Reading \<longrightarrow> li_ok l'" using l sent by metis
  moreover have "i \<in> live (sv_handler t) \<longrightarrow> li_phase l' \<noteq> Gone" using l sent assms(5) by metis
  moreover have "i \<in> fst ` set (sv_conns t) \<longleftrightarrow> li_phase l' \<in> {Tracked, Reading, Returned, Shut}"
    using l sent assms(3) by metis
  moreover have "li_phase l' \<in> {Shut, Untracked, Gone} \<longrightarrow> cn_dead (li_conn l')" using l sent by metis
  moreover have "cn_closes (li_conn l') \<le> (if cn_dead (li_conn l') then 1 else 0)"
  proof (cases "cn_dead (li_conn l)")
    case True
    then have "li_conn l' = li_conn l" using sent by blast
    then show ?thesis using l by metis
  next
    case False
    then have "cn_closes (li_conn l) = 0" using l by simp
    then show ?thesis using sent by simp
  qed
  ultimately show ?thesis unfolding link_inv_def by blast
qed

lemma inv_call:
  assumes "server_inv s" "inv (fst r)"
    and "\<And>k. k \<in> K \<Longrightarrow> k < length (sv_links s) \<and> li_ok (sv_links s ! k) \<and> li_phase (sv_links s ! k) \<noteq> Gone"
    and "known (fst r) \<subseteq> K \<union> known (sv_handler s)" "fst ` set (snd r) \<subseteq> K \<union> known (sv_handler s)"
    and "live (fst r) \<subseteq> K \<union> live (sv_handler s)"
  shows "server_inv (call en r s)"
proof (rule server_invI [OF assms(1)])
  have known: "known (sv_handler s) \<subseteq> {..<length (sv_links s)}" using assms(1) by (simp add: server_inv_def)
  show "inv (sv_handler (call en r s))" using assms(2) by simp
  show "known (sv_handler (call en r s)) \<subseteq> {..<length (sv_links (call en r s))}"
    using assms(3,4) known by fastforce
  show "fst ` set (sv_conns (call en r s)) \<subseteq> {..<length (sv_links (call en r s))}"
    using assms(1) by (simp add: server_inv_def)
  fix i
  assume i: "i < length (sv_links (call en r s))" and "i < length (sv_links s) \<Longrightarrow> link_inv s i (sv_links s ! i)"
  then have l: "link_inv s i (sv_links s ! i)" by simp
  show "link_inv (call en r s) i (sv_links (call en r s) ! i)"
  proof (rule link_inv_sent [OF l])
    show "only_sent (sv_links s ! i) (sv_links (call en r s) ! i)" using i call_nth(1) by simp
    show "i \<in> known (sv_handler s) \<or> li_ok (sv_links s ! i)" if "i \<in> known (sv_handler (call en r s))"
      using that assms(3,4) by auto
    show "i \<in> live (sv_handler s) \<or> li_phase (sv_links s ! i) \<noteq> Gone" if "i \<in> live (sv_handler (call en r s))"
      using that assms(3,6) by auto
    show "sv_links (call en r s) ! i = sv_links s ! i" if "\<not> li_ok (sv_links s ! i)"
    proof -
      have "i \<notin> K" "i \<notin> known (sv_handler s)" using that l assms(3) by (auto simp: link_inv_def)
      then show ?thesis using i assms(5) by (intro call_nth(2)) auto
    qed
  qed simp
qed

lemma inv_line:
  assumes "server_inv s" "phase_of s sk = Some Reading" "good (en_rt en)"
  shows "server_inv (serve_line H en sk line s)"
proof -
  have sk: "sk < length (sv_links s)" "li_phase (sv_links s ! sk) = Reading" using assms(2) phase_ofD by blast+
  then have ok: "li_ok (sv_links s ! sk)" using assms(1) by (simp add: server_inv_def link_inv_def)
  have send: "server_inv (send_to off w sk m s)" for off w m
    using inv_call [OF assms(1), of "(sv_handler s, [(sk, m)])" "{sk}" "\<lparr>en_rt = en_rt en, en_write = (\<lambda>n. w), en_zone = off, en_errtext = en_errtext en\<rparr>"]
      assms(1) sk ok by (auto simp: server_inv_def call_def)
  have "server_inv (call en (ha_Handle H (en_rt en) sk msg (sv_handler s)) s)" for msg
    using assms(1,3) sk ok handle_inv handle_known handle_out handle_live
    by (intro inv_call [where K = "{sk}"]) (simp_all add: server_inv_def)
  with send assms(1) show ?thesis
    by (simp add: serve_line_def split: sum.split decode_error.split)
qed

lemma inv_track: "server_inv s \<Longrightarrow> phase_of s sk = Some Accepted \<Longrightarrow> server_inv (track sk True (set_phase sk Tracked s))"
  by (rule server_invI, assumption)
     (auto simp: server_inv_def link_inv_def set_phase_def modify_link_nth dest!: phase_ofD)

lemma inv_auth:
  assumes "server_inv s" "phase_of s sk = Some Tracked"
  shows "server_inv (serve_auth getuid en sk answer s)"
proof (cases "peer_accepted getuid answer")
  case False
  with assms show ?thesis
    by (intro server_invI [OF assms(1)])
       (auto simp: serve_auth_def server_inv_def link_inv_def set_phase_def modify_link_nth dest!: phase_ofD)
next
  case True
  define s1 where "s1 = modify_link sk (\<lambda>l. l\<lparr>li_phase := Reading, li_ok := True\<rparr>) s"
  have sk: "sk < length (sv_links s1)" "li_ok (sv_links s1 ! sk)" "li_phase (sv_links s1 ! sk) = Reading"
    using assms(2) by (auto simp: s1_def modify_link_nth dest!: phase_ofD)
  have s1: "server_inv s1"
    using assms unfolding s1_def
    by (intro server_invI [OF assms(1)]) (auto simp: server_inv_def link_inv_def modify_link_nth dest!: phase_ofD)
  then have "server_inv (call en (sv_handler s1, [(sk, Hello (op_Version (sv_opts s)))]) s1)"
    using sk by (intro inv_call [where K = "{sk}"]) (auto simp: server_inv_def)
  with True show ?thesis by (simp add: serve_auth_def call_def s1_def same_handler)
qed

lemma inv_return: "server_inv s \<Longrightarrow> phase_of s sk = Some Reading \<Longrightarrow> server_inv (set_phase sk Returned s)"
  by (rule server_invI, assumption)
     (auto simp: server_inv_def link_inv_def set_phase_def modify_link_nth dest!: phase_ofD)

lemma inv_close_link: "server_inv s \<Longrightarrow> server_inv (close_link sk s)"
  by (rule server_invI, assumption)
     (auto simp: server_inv_def link_inv_def close_link_def modify_link_nth conn_close_def split: if_splits)

lemma inv_shut: "server_inv s \<Longrightarrow> phase_of s sk = Some Returned \<Longrightarrow> server_inv (set_phase sk Shut (close_link sk s))"
  by (rule server_invI, assumption)
     (auto simp: server_inv_def link_inv_def set_phase_def close_link_def modify_link_nth conn_close_def
       split: if_splits dest!: phase_ofD)

lemma inv_untrack: "server_inv s \<Longrightarrow> phase_of s sk = Some Shut \<Longrightarrow> server_inv (set_phase sk Untracked (track sk False s))"
  by (rule server_invI, assumption)
     (auto simp: server_inv_def link_inv_def set_phase_def modify_link_nth dest!: phase_ofD)

lemma inv_closed:
  assumes "server_inv s" "phase_of s sk = Some Untracked" "good (en_rt en)"
  shows "server_inv (call en (ha_Closed H (en_rt en) sk (sv_handler s)) (set_phase sk Gone s))"
    (is "server_inv (call en ?r ?s)")
proof (rule server_invI [OF assms(1)])
  have h: "inv (sv_handler s)" using assms(1) by (simp add: server_inv_def)
  show "inv (sv_handler (call en ?r ?s))" using closed_inv [OF h assms(3)] by simp
  show "known (sv_handler (call en ?r ?s)) \<subseteq> {..<length (sv_links (call en ?r ?s))}"
    using closed_known [OF h assms(3), of sk] assms(1) by (auto simp: server_inv_def)
  show "fst ` set (sv_conns (call en ?r ?s)) \<subseteq> {..<length (sv_links (call en ?r ?s))}"
    using assms(1) by (simp add: server_inv_def)
  fix i
  assume i: "i < length (sv_links (call en ?r ?s))" and "i < length (sv_links s) \<Longrightarrow> link_inv s i (sv_links s ! i)"
  then have l: "link_inv s i (sv_links s ! i)" by simp
  have sent: "only_sent (sv_links ?s ! i) (sv_links (call en ?r ?s) ! i)" using i call_nth(1) [of i ?s] by simp
  have same: "sv_links (call en ?r ?s) ! i = sv_links ?s ! i" if "\<not> li_ok (sv_links s ! i)"
  proof -
    have "i \<notin> known (sv_handler s)" using that l by (simp add: link_inv_def)
    then show ?thesis using i closed_out [OF h assms(3), of sk] by (intro call_nth(2)) auto
  qed
  show "link_inv (call en ?r ?s) i (sv_links (call en ?r ?s) ! i)"
    using l sent same i closed_known [OF h assms(3), of sk] closed_live [OF h assms(3), of sk] phase_ofD [OF assms(2)]
    by (auto simp: link_inv_def only_sent_def set_phase_def modify_link_nth split: if_splits)
qed

lemma inv_work:
  assumes "server_inv s" "work (sv_handler s) out h"
  shows "server_inv (call en (h, out) s)"
  using assms(1) work_inv [OF _ assms(2)] work_known [OF _ assms(2)] work_out [OF _ assms(2)] work_live [OF _ assms(2)]
  by (intro inv_call [where K = "{}"]) (auto simp: server_inv_def)

lemma inv_shutdown:
  "server_inv s \<Longrightarrow> server_inv (s\<lparr>sv_listening := b, sv_doomed := ds\<rparr>)"
  "server_inv s \<Longrightarrow> server_inv (s\<lparr>sv_doomed := ds\<rparr>)"
  by (simp_all add: server_inv_def link_inv_def)

lemma server_inv_step: "server_inv s \<Longrightarrow> server_step H work good getuid s l t \<Longrightarrow> server_inv t"
  by (elim server_stepE)
     (auto simp: inv_accept inv_track inv_auth inv_line inv_return inv_shut inv_untrack inv_closed inv_work inv_shutdown
       intro!: inv_close_link inv_shutdown)

lemma server_inv_New: "inv h \<Longrightarrow> known h = {} \<Longrightarrow> server_inv (New opts h)"
  using live_known by (simp add: server_inv_def New_def)

lemma server_run_inv:
  "run (server_step H work good getuid) s ls t \<Longrightarrow> server_inv s \<Longrightarrow> server_inv t"
  by (induction rule: run.induct) (auto intro: server_inv_step)

end

end
