(* ===== verification/ServerCore.thy ===== *)
theory ServerCore
  imports Server CoreProps
begin

text \<open>
  \<open>Core\<close> as the handler of the server: the interface \<open>handler_contract\<close> holds for
  \<open>Core.Handle\<close>, \<open>Core.Closed\<close> and everything the core does on its own (the goroutines it
  starts, the pumps of its bus, the janitor's sweeps).
\<close>

section \<open>The handler\<close>

definition new_sends :: "Core \<Rightarrow> Core \<Rightarrow> sends" where
  "new_sends c d = drop (length (co_sent c)) (co_sent d)"

definition core_handler :: "(Runtime, Core) Handler" where
  "core_handler =
     \<lparr>ha_Handle = (\<lambda>rt sk msg c. (Handle rt sk msg c, new_sends c (Handle rt sk msg c))),
      ha_Closed = (\<lambda>rt sk c. (Closed rt sk c, new_sends c (Closed rt sk c)))\<rparr>"

text \<open>A message a pump hands to its connection is written to it, whether that succeeds or not.\<close>

definition core_sends :: "Core \<Rightarrow> label \<Rightarrow> Core \<Rightarrow> sends" where
  "core_sends c l d =
     (case l of
        L_Pump p (A_Sent m ok) \<Rightarrow> [(bus_owner (co_bus c) p, m)]
      | _ \<Rightarrow> new_sends c d)"

definition background :: "label \<Rightarrow> bool" where
  "background l \<longleftrightarrow> (case l of L_Emit sk m \<Rightarrow> False | L_Message sk msg \<Rightarrow> False | L_Closed sk \<Rightarrow> False | _ \<Rightarrow> True)"

definition core_work :: "Janitor \<Rightarrow> Core \<Rightarrow> sends \<Rightarrow> Core \<Rightarrow> bool" where
  "core_work j c out d \<longleftrightarrow> (\<exists>l. background l \<and> daemon_step j c l d \<and> out = core_sends c l d)"

text \<open>The connections the bus has ever been given, and those of live subscriptions.\<close>

definition sinks :: "Bus \<Rightarrow> sink set" where
  "sinks b = sub_sink ` set (b_heap b)"

definition audience :: "Bus \<Rightarrow> sink set" where
  "audience b = bus_owner b ` bus_live b"

lemma sinks_nth: "sinks b = {bus_owner b q | q. q < length (b_heap b)}"
  by (auto simp: sinks_def set_conv_nth)

lemma sinks_owner: "q < length (b_heap b) \<Longrightarrow> bus_owner b q \<in> sinks b"
  by (auto simp: sinks_nth)

lemma audience_sinks: "bus_inv b \<Longrightarrow> audience b \<subseteq> sinks b"
  by (auto simp: audience_def bus_inv_def intro: sinks_owner)

text \<open>Operations that keep the heap's size and owners keep both sets.\<close>

definition same_owners :: "Bus \<Rightarrow> Bus \<Rightarrow> bool" where
  "same_owners b b' \<longleftrightarrow> length (b_heap b') = length (b_heap b) \<and> b_subs b' = b_subs b \<and>
     (\<forall>q < length (b_heap b). bus_owner b' q = bus_owner b q)"

lemma same_owners_refl [simp]: "same_owners b b"
  by (simp add: same_owners_def)

lemma same_ownersD:
  assumes "same_owners b b'" "bus_inv b"
  shows "sinks b' = sinks b" "audience b' = audience b"
proof -
  show "sinks b' = sinks b" using assms(1) by (auto simp: sinks_nth same_owners_def) metis
  have "\<forall>p \<in> set (b_subs b). p < length (b_heap b)" using assms(2) by (simp add: bus_inv_def)
  with assms(1) show "audience b' = audience b" by (auto simp: audience_def same_owners_def image_iff)
qed

lemma same_Publish: "bus_inv b \<Longrightarrow> range_order v \<Longrightarrow> same_owners b (Publish v sid msg b)"
  by (simp add: same_owners_def Publish_sel)

lemma same_rebind: "same_owners (co_bus c) (co_bus (rebindUnbound rt socket c))"
  by (simp add: same_owners_def)

lemma same_publish_unknown: "bus_inv b \<Longrightarrow> rt_ok rt \<Longrightarrow> same_owners b (publish_unknown rt n ss b)"
  by (simp add: same_owners_def publish_unknown_sel)

lemma same_pump: "pump_step (b_heap b ! p) a s \<Longrightarrow> same_owners b (modify_sub p (\<lambda>_. s) b)"
  by (auto simp: same_owners_def dest: pump_step_sel)

section \<open>What each operation sends\<close>

definition sends_to :: "sink set \<Rightarrow> Core \<Rightarrow> Core \<Rightarrow> bool" where
  "sends_to K c d \<longleftrightarrow> (\<exists>out. co_sent d = co_sent c @ out \<and> fst ` set out \<subseteq> K)"

lemma sends_toD: "sends_to K c d \<Longrightarrow> fst ` set (new_sends c d) \<subseteq> K"
  unfolding sends_to_def new_sends_def by (metis append_eq_conv_conj)

lemma sends_to_same: "co_sent d = co_sent c \<Longrightarrow> sends_to K c d"
  by (simp add: sends_to_def)

lemma sends_to_trans: "sends_to K c d \<Longrightarrow> sends_to K d e \<Longrightarrow> sends_to K c e"
  unfolding sends_to_def by (metis append_assoc image_Un le_sup_iff set_append)

lemma sends_to_Handle: "sends_to {sk} c (Handle rt sk msg c)"
  by (cases msg)
     (auto simp: Handle_def sends_to_def handleEmit_eq handleSubscribe_def handleUnsubscribe_def handleStatus_def
        handleFocusRequest_def snapshotInto_eq Let_def case_prod_beta split: option.splits)

lemma sends_to_rebind_loop:
  "\<forall>(sk, p) \<in> set wk. sk \<in> K \<Longrightarrow> sends_to K c (rebind_loop rt socket n wk c)"
proof (induction rt socket n wk c rule: rebind_loop.induct)
  case (2 rt socket n sk p wk c)
  define sid where "sid = resolveAutoBind (rt_sessions rt n) (sub_ActivityPane (sub_at c p)) socket c"
  define d where "d = (if sid \<noteq> [] then snapshotInto (rt_sessions rt n) (rt_now rt n) sk sid
    (c\<lparr>co_bus := Rebind (Some p) sid (co_bus c)\<rparr>) else c)"
  have eq: "rebind_loop rt socket n ((sk, p) # wk) c = rebind_loop rt socket (Suc n) wk d"
    unfolding rebind_loop.simps Let_def d_def sid_def ..
  have "sk \<in> K" using 2(2) by simp
  then have "sends_to K c d" by (simp add: d_def sends_to_def snapshotInto_eq)
  moreover have "sends_to K d (rebind_loop rt socket (Suc n) wk d)"
    unfolding d_def by (rule 2(1) [OF sid_def]) (use 2(2) in simp)
  ultimately show ?case unfolding eq by (rule sends_to_trans)
qed (simp add: sends_to_same)

lemma sends_to_rebindUnbound:
  assumes "core_inv c" "rt_ok rt"
  shows "sends_to (sinks (co_bus c)) c (rebindUnbound rt socket c)"
proof -
  have "sk \<in> sinks (co_bus c)" if "(sk, p) \<in> set (co_subs c)" for sk p
    using table_mem_valid [OF assms(1) that] sinks_owner by (metis sub_at_def)
  then show ?thesis
    using assms(2) by (auto simp: rebindUnbound_def Let_def sends_to_same range_order_set intro!: sends_to_rebind_loop)
qed

section \<open>The interface holds\<close>

lemma Handle_owners:
  assumes "core_inv c" "rt_ok rt"
  shows "sinks (co_bus (Handle rt sk msg c)) \<subseteq> insert sk (sinks (co_bus c))"
    and "audience (co_bus (Handle rt sk msg c)) \<subseteq> insert sk (audience (co_bus c))"
proof -
  have b: "bus_inv (co_bus c)" using assms(1) by (rule core_invD)
  have live: "p < length (b_heap (co_bus c))" if "p \<in> bus_live (co_bus c)" for p using b that by (simp add: bus_inv_def)
  have emit: "same_owners (co_bus c) (co_bus (handleEmit rt sk m c))" for m
    using b assms(2) by (auto simp: handleEmit_eq co_bus_emit_tail same_Publish)
  have sub: "co_bus (handleSubscribe rt sk m c) = co_bus c \<or>
      (\<exists>opt. so_Sink opt = sk \<and> co_bus (handleSubscribe rt sk m c) = snd (Subscribe opt (co_bus c)))" for m
    by (auto simp: handleSubscribe_def Let_def case_prod_beta snapshotInto_eq) (metis SubOpts.select_convs(6))+
  have subscribe: "sinks (snd (Subscribe opt (co_bus c))) \<subseteq> insert (so_Sink opt) (sinks (co_bus c))"
    "audience (snd (Subscribe opt (co_bus c))) \<subseteq> insert (so_Sink opt) (audience (co_bus c))" for opt
    using live by (auto simp: sinks_def audience_def new_sub_def nth_append)
  have unsub: "sinks (Unsubscribe sp (co_bus c)) \<subseteq> sinks (co_bus c)"
    "audience (Unsubscribe sp (co_bus c)) \<subseteq> audience (co_bus c)" for sp
    using live by (cases sp; auto simp: sinks_nth audience_def)+
  have hs: "sinks (co_bus (handleSubscribe rt sk m c)) \<subseteq> insert sk (sinks (co_bus c))"
    "audience (co_bus (handleSubscribe rt sk m c)) \<subseteq> insert sk (audience (co_bus c))" for m
    using sub [of m] subscribe by fastforce+
  have hu: "sinks (co_bus (handleUnsubscribe sk c)) \<subseteq> insert sk (sinks (co_bus c))"
    "audience (co_bus (handleUnsubscribe sk c)) \<subseteq> insert sk (audience (co_bus c))"
    using unsub [of "map_of (co_subs c) sk"] by (auto simp: handleUnsubscribe_def)
  note same = same_ownersD [OF emit b]
  show "sinks (co_bus (Handle rt sk msg c)) \<subseteq> insert sk (sinks (co_bus c))"
    using same(1) hs(1) hu(1) by (cases msg) (simp_all add: Handle_def handleStatus_def Let_def subset_insertI)
  show "audience (co_bus (Handle rt sk msg c)) \<subseteq> insert sk (audience (co_bus c))"
    using same(2) hs(2) hu(2) by (cases msg) (simp_all add: Handle_def handleStatus_def Let_def subset_insertI)
qed

lemma Closed_owners:
  assumes "core_inv c" "rt_ok rt"
  shows "sinks (co_bus (Closed rt sk c)) = sinks (co_bus c)"
    and "audience (co_bus (Closed rt sk c)) = audience (co_bus c) - {sk}"
  using UnregisterSink_sel [OF core_invD(2) [OF assms(1)] rt_okD(3) [OF assms(2)], of sk]
  by (auto simp: Closed_def sinks_nth audience_def)

lemma background_owners:
  assumes "core_inv c" "background l" "daemon_step j c l d"
  shows "same_owners (co_bus c) (co_bus d)"
  using assms(3,1,2)
proof (cases rule: daemon_step.cases)
  case (task rt t)
  have c: "core_inv (take_task t c)" using assms(1) by (rule core_inv_take_task)
  show ?thesis
  proof (cases t)
    case (EmitTail m upd)
    with task assms(1) show ?thesis by (simp add: run_task_def co_bus_emit_tail same_Publish core_invD)
  next
    case (AfterEmit m upd)
    with task same_rebind [of "take_task t c" rt "em_TmuxSocket m"] show ?thesis by (simp add: run_task_def Let_def)
  qed (use task in \<open>simp_all add: run_task_def\<close>)
next
  case (focus rt sid to)
  then show ?thesis by (simp add: run_task_def)
next
  case (pump rt p a s)
  then show ?thesis using same_pump [of "co_bus c" p a s] by (simp add: sub_at_def)
next
  case (sweep rt n)
  then have "d = snd (Sweep rt j c)" by simp
  with sweep assms(1) show ?thesis by (simp add: Sweep_bus same_publish_unknown core_invD)
qed (simp_all add: background_def)

lemma background_sends:
  assumes "core_inv c" "background l" "daemon_step j c l d"
  shows "fst ` set (core_sends c l d) \<subseteq> sinks (co_bus c)"
  using assms(3,1,2)
proof (cases rule: daemon_step.cases)
  case (task rt t)
  have c: "core_inv (take_task t c)" using assms(1) by (rule core_inv_take_task)
  have "sends_to (sinks (co_bus c)) (take_task t c) d"
  proof (cases t)
    case (AfterEmit m upd)
    with task sends_to_rebindUnbound [OF c, of rt "em_TmuxSocket m"] show ?thesis
      by (simp add: run_task_def Let_def sends_to_def)
  qed (use task in \<open>simp_all add: run_task_def sends_to_same\<close>)
  from sends_toD [OF this] task show ?thesis by (simp add: core_sends_def new_sends_def)
next
  case (focus rt sid to)
  then show ?thesis by (simp add: core_sends_def new_sends_def run_task_def)
next
  case (pump rt p a s)
  then have "bus_owner (co_bus c) p \<in> sinks (co_bus c)" by (simp add: sinks_owner)
  with pump show ?thesis
    by (auto simp: core_sends_def new_sends_def pump_effect_def snapshotInto_eq sub_at_def split: pump_act.splits)
next
  case (sweep rt n)
  then have "d = snd (Sweep rt j c)" by simp
  with sweep show ?thesis by (simp add: core_sends_def new_sends_def)
qed (simp_all add: background_def core_sends_def new_sends_def)

interpretation core_server: handler_contract core_handler "core_work j" rt_ok core_inv "\<lambda>c. sinks (co_bus c)"
  "\<lambda>c. audience (co_bus c)"
proof unfold_locales
  fix h h' :: Core and e :: Runtime and sk msg out
  assume h: "core_inv h"
  show "audience (co_bus h) \<subseteq> sinks (co_bus h)" using h by (simp add: audience_sinks core_invD)
  {
    assume e: "rt_ok e"
    show "core_inv (fst (ha_Handle core_handler e sk msg h))" "core_inv (fst (ha_Closed core_handler e sk h))"
      using h e by (simp_all add: core_handler_def core_inv_Handle core_inv_Closed)
    show "sinks (co_bus (fst (ha_Handle core_handler e sk msg h))) \<subseteq> insert sk (sinks (co_bus h))"
      "audience (co_bus (fst (ha_Handle core_handler e sk msg h))) \<subseteq> insert sk (audience (co_bus h))"
      using Handle_owners [OF h e] by (simp_all add: core_handler_def)
    show "sinks (co_bus (fst (ha_Closed core_handler e sk h))) \<subseteq> sinks (co_bus h)"
      "audience (co_bus (fst (ha_Closed core_handler e sk h))) \<subseteq> audience (co_bus h) - {sk}"
      using Closed_owners [OF h e] by (simp_all add: core_handler_def)
    show "fst ` set (snd (ha_Handle core_handler e sk msg h)) \<subseteq> insert sk (sinks (co_bus h))"
      using sends_toD [OF sends_to_Handle [where sk = sk and c = h and rt = e and msg = msg]] by (auto simp: core_handler_def)
    show "fst ` set (snd (ha_Closed core_handler e sk h)) \<subseteq> sinks (co_bus h)"
      by (simp add: core_handler_def new_sends_def Closed_def)
  }
  assume "core_work j h out h'"
  then obtain l where l: "background l" "daemon_step j h l h'" "out = core_sends h l h'" by (auto simp: core_work_def)
  show "core_inv h'" using core_inv_step [OF h l(2)] .
  show "sinks (co_bus h') \<subseteq> sinks (co_bus h)" "audience (co_bus h') \<subseteq> audience (co_bus h)"
    using same_ownersD [OF background_owners [OF h l(1,2)] core_invD(2) [OF h]] by simp_all
  show "fst ` set out \<subseteq> sinks (co_bus h)" using background_sends [OF h l(1,2)] l(3) by simp
qed

end
