(* ===== verification/ServerProps.thy ===== *)
theory ServerProps
  imports ServerCore CodecProps
begin

text \<open>
  The properties of the server and its connections, with the core as the handler.
\<close>

section \<open>One connection\<close>

text \<open>
  C20: Frames are atomic: whatever messages the goroutines of a connection send, however the writes
  fail, and whenever the connection is closed, the lines its peer reads are exactly the frames of
  the messages sent before the first failed write or close, in the order of the sends; a
  frame that was cut off is never continued by another.
\<close>

theorem peer_reads_whole_frames:
  assumes "\<forall>x \<in> set ops. op_ok x"
  shows "read_lines (cn_out (fold conn_op ops newConn)) = whole_frames ops"
  using assms by (rule peer_reads)

definition sample_ops :: "conn_call list" where
  "sample_ops = [OpSend 0 Wrote (Hello ''dev''), OpSend 0 (WriteFailed 3) PongMsg, OpSend 0 Wrote PongMsg, OpClose]"

lemma Encode_pong: "Encode off PongMsg = Some (compact (V_Obj (env_members (Env ''pong''))) @ [newline])"
  by (simp add: Encode_def message_members_def PongMsg_def newline_def)

lemma pong_length: "3 < length (compact (V_Obj (env_members (Env ''pong''))) @ [newline])"
  by (simp add: compact_def env_members_def)

theorem peer_reads_whole_frames_witness:
  "read_lines (cn_out (fold conn_op sample_ops newConn)) = [the (Encode 0 (Hello ''dev''))]"
  using peer_reads_whole_frames [of sample_ops] pong_length
  by (auto simp: sample_ops_def writable_def meta_of_def Hello_def PongMsg_def Encode_def message_members_def
      Encode_pong [unfolded PongMsg_def] newline_def)

text \<open>
  C37: Once a write to a connection has failed, \<open>close\<close> never closes its descriptor, whatever is
  called afterwards and however often, because \<open>Send\<close> has already marked the connection
  dead: a connection that was open and is closed after a failed write leaks.
\<close>

theorem failed_write_leaks_the_descriptor:
  assumes "Encode off msg = Some b" "\<not> cn_dead (fold conn_op ops newConn)"
  shows "cn_closes (fold conn_op (ops @ OpSend off (WriteFailed n) msg # later) newConn) = 0"
proof -
  have "cn_closes (fold conn_op ops newConn) \<le> (if cn_dead (fold conn_op ops newConn) then 1 else 0)"
    by (rule closes_ops) (simp add: newConn_def)
  with assms show ?thesis by (simp add: conn_Send_def dead_ops)
qed

theorem failed_write_leaks_the_descriptor_witness:
  "cn_closes (fold conn_op ([] @ OpSend 0 (WriteFailed 3) PongMsg # [OpClose, OpClose]) newConn) = 0"
  by (rule failed_write_leaks_the_descriptor [OF Encode_pong]) (simp add: newConn_def)

section \<open>The read loop\<close>

text \<open>The requests in the lines of a stream: what is neither blank nor malformed nor of unknown type.\<close>

fun requests :: "nat \<Rightarrow> string list \<Rightarrow> (nat \<times> Message) list" where
  "requests n [] = []"
| "requests n (line # ls) =
     (case Decode line of
        Inr msg \<Rightarrow> if TrimSpace line = [] then requests (Suc n) ls else (n, msg) # requests (Suc n) ls
      | Inl err \<Rightarrow> requests (Suc n) ls)"

definition handle_all :: "('e, 'h) Handler \<Rightarrow> (nat \<Rightarrow> 'e Env) \<Rightarrow> sink \<Rightarrow> (nat \<times> Message) list \<Rightarrow> 'h \<Rightarrow> 'h" where
  "handle_all H en sk reqs h = fold (\<lambda>(n, msg) h. fst (ha_Handle H (en_rt (en n)) sk msg h)) reqs h"

lemma handler_serve_lines:
  "sv_handler (serve_lines H en n sk ls s) = handle_all H en sk (requests n ls) (sv_handler s)"
  by (induction H en n sk ls s rule: serve_lines.induct)
     (auto simp: serve_line_def handle_all_def split: sum.split decode_error.split)

lemma handler_serve:
  "sv_handler (serve H getuid en sk answer stream s) =
     fst (ha_Closed H (en_rt (en 1)) sk
       (handle_all H en sk (if peer_accepted getuid answer then requests 2 (read_lines stream) else []) (sv_handler s)))"
  by (simp add: serve_def serve_end_def serve_auth_def Let_def handler_serve_lines handle_all_def)

lemma line_not_blank:
  assumes "Encode off msg = Some line" "writable msg"
  shows "TrimSpace line \<noteq> []"
proof -
  obtain body where "line = body @ [newline]" "body \<noteq> []" "hd body = CHR ''{''" using Encode_line [OF assms] .
  then have "CHR ''{'' \<in> set line" by (cases body) auto
  moreover have "CHR ''{'' \<notin> space_bytes" by (simp add: space_bytes_def space_runes_def)
  ultimately show ?thesis using TrimSpace_keeps by fastforce
qed

lemma requests_encoded:
  assumes "those (map (Encode off) msgs) = Some ls" "\<forall>msg \<in> set msgs. transparent msg"
  shows "map snd (requests n ls) = msgs"
  using assms
proof (induction msgs arbitrary: ls n)
  case (Cons msg msgs)
  then obtain line ls' where ls: "ls = line # ls'" "Encode off msg = Some line" "those (map (Encode off) msgs) = Some ls'"
    by (auto split: option.splits)
  moreover have "Decode line = Inr msg" using ls(2) Cons.prems(2) by (simp add: Decode_Encode)
  moreover have "TrimSpace line \<noteq> []" using ls(2) Cons.prems(2) by (simp add: line_not_blank transparent_def)
  ultimately show ?case using Cons by simp
qed simp

text \<open>
  C9: A connection whose peer passes the check and sends encoded messages, followed by any
  unfinished line, has exactly these messages handled, each once and in the order they were
  sent, and then the handler told that it is closed; a peer that does not pass has nothing
  handled, whatever it sends.
\<close>

theorem requests_are_served_in_order:
  assumes "those (map (Encode off) msgs) = Some ls" "\<forall>msg \<in> set msgs. transparent msg" "newline \<notin> set part"
  shows "\<exists>reqs. map snd reqs = (if vouched answer = Some (word_of_int getuid) then msgs else []) \<and>
    sv_handler (serve core_handler getuid en sk answer (concat ls @ part) s) =
    Closed (en_rt (en 1)) sk (fold (\<lambda>(n, msg). Handle (en_rt (en n)) sk msg) reqs (sv_handler s))"
proof -
  have "\<exists>body. l = body @ [newline] \<and> newline \<notin> set body" if "l \<in> set ls" for l
    using those_mem [OF assms(1) that] assms(2) Encode_line unfolding transparent_def by metis
  then have "read_lines (concat ls @ part) = ls" using assms(3) by (intro read_lines_append) blast+
  moreover have "handle_all core_handler en sk reqs h = fold (\<lambda>(n, msg). Handle (en_rt (en n)) sk msg) reqs h" for reqs h
    by (simp add: handle_all_def core_handler_def)
  ultimately show ?thesis
    using requests_encoded [OF assms(1,2), of 2] handler_serve [of core_handler getuid en sk answer "concat ls @ part" s]
    by (auto simp: peer_accepted_iff core_handler_def intro!: exI [of _ "if vouched answer = Some (word_of_int getuid) then requests 2 ls else []"])
qed

definition sample_env :: "nat \<Rightarrow> Runtime Env" where
  "sample_env n = \<lparr>en_rt = sample_rt, en_write = (\<lambda>n. Wrote), en_zone = 0, en_errtext = (\<lambda>e. [])\<rparr>"

definition sample_server :: "Core Server" where
  "sample_server = New \<lparr>op_SocketPath = ''/s'', op_InfoPath = [], op_Version = ''dev''\<rparr> (NewCore ''dev'' None)"

abbreviation own_peer :: "credentials option" where "own_peer \<equiv> Some (Ucred (Inr (Some 1000)))"

theorem requests_are_served_in_order_witness:
  "\<exists>ls reqs. map snd reqs = [M_Emit working_emit, PingMsg] \<and>
     sv_handler (serve core_handler 1000 sample_env 0 own_peer (concat ls @ ''{'') sample_server) =
     Closed (en_rt (sample_env 1)) 0
       (fold (\<lambda>(n, msg). Handle (en_rt (sample_env n)) 0 msg) reqs (sv_handler sample_server))"
proof -
  obtain ls where ls: "those (map (Encode 0) [M_Emit working_emit, PingMsg]) = Some ls"
    using epoch_text by (auto simp: Encode_def message_members_def working_emit_def sample_emit_def PingMsg_def)
  have ok: "\<forall>msg \<in> set [M_Emit working_emit, PingMsg]. transparent msg"
    by (simp add: transparent_def well_tagged_def envelope_def type_tag_def Env_def Envelope.defs Version_def writable_def
        meta_of_def content_ok_def working_emit_def sample_emit_def int64_def EventAgentWorking_def PingMsg_def)
  have part: "newline \<notin> set ''{''" and "vouched own_peer = Some (word_of_int 1000)" by (simp_all add: newline_def vouched_def)
  note served = requests_are_served_in_order [OF ls ok part, of own_peer 1000 sample_env 0 sample_server,
      unfolded if_P [OF \<open>vouched own_peer = Some (word_of_int 1000)\<close>]]
  show ?thesis by (rule exI [of _ ls]) (rule served)
qed

section \<open>All connections at once\<close>

lemma step_ok:
  assumes "server_step H work good getuid s l t" "sk < length (sv_links t)" "li_ok (sv_links t ! sk)"
  shows "sk < length (sv_links s) \<and> li_ok (sv_links s ! sk) \<or>
    (\<exists>answer. l = S_Auth sk answer \<and> vouched answer = Some (word_of_int getuid))"
  using assms
proof (cases rule: server_step.cases)
  case accept
  with assms(2,3) show ?thesis by (auto simp: accept_def nth_append split: if_splits)
next
  case (auth k en answer)
  show ?thesis
  proof (cases "peer_accepted getuid answer \<and> k = sk")
    case True
    with auth show ?thesis by (simp add: peer_accepted_iff)
  next
    case False
    with auth assms(2,3) show ?thesis
      by (auto simp: serve_auth_def set_phase_def modify_link_nth split: if_splits)
  qed
next
  case (line k en ln)
  with assms(2,3) show ?thesis by (auto simp: serve_line_def split: if_splits sum.splits decode_error.splits)
next
  case (closed k en)
  with assms(2,3) show ?thesis by (auto simp: set_phase_def modify_link_nth split: if_splits)
qed (auto simp: set_phase_def close_link_def modify_link_nth split: if_splits)

lemma step_keeps_ok:
  assumes "server_step H work good getuid s l t" "sk < length (sv_links s)" "li_ok (sv_links s ! sk)"
  shows "sk < length (sv_links t) \<and> li_ok (sv_links t ! sk)"
  using assms
proof (cases rule: server_step.cases)
  case (auth k en answer)
  with assms(2,3) show ?thesis by (auto simp: serve_auth_def set_phase_def modify_link_nth)
next
  case (line k en ln)
  with assms(2,3) show ?thesis by (auto simp: serve_line_def split: sum.splits decode_error.splits)
qed (auto simp: accept_def nth_append set_phase_def close_link_def modify_link_nth)

text \<open>What has happened to a connection is in the labels: it passed the check, or was served nothing.\<close>

lemma history:
  assumes "run (server_step core_handler (core_work j) rt_ok getuid) (New opts (NewCore v f)) ls s"
  shows "core_server.server_inv s \<and>
    (\<forall>sk < length (sv_links s). li_ok (sv_links s ! sk) \<longrightarrow>
       (\<exists>answer. S_Auth sk answer \<in> set ls \<and> vouched answer = Some (word_of_int getuid))) \<and>
    (\<forall>sk line. S_Line sk line \<in> set ls \<longrightarrow> sk < length (sv_links s) \<and> li_ok (sv_links s ! sk))"
  using assms
proof (induction "New opts (NewCore v f)" ls s rule: run.induct)
  case run_Nil
  have "sinks (co_bus (NewCore v f)) = {}" by (simp add: sinks_def NewCore_def New_bus_def)
  then show ?case using core_server.server_inv_New [of "NewCore v f" opts] by (simp add: New_def)
next
  case (run_snoc ls t l u)
  have inv: "core_server.server_inv u" using run_snoc core_server.server_inv_step by blast
  moreover have "li_ok (sv_links u ! sk) \<longrightarrow> (\<exists>answer. S_Auth sk answer \<in> set (ls @ [l]) \<and> vouched answer = Some (word_of_int getuid))"
    if "sk < length (sv_links u)" for sk
  proof
    assume "li_ok (sv_links u ! sk)"
    from step_ok [OF run_snoc(3) that this]
    show "\<exists>answer. S_Auth sk answer \<in> set (ls @ [l]) \<and> vouched answer = Some (word_of_int getuid)"
    proof
      assume "sk < length (sv_links t) \<and> li_ok (sv_links t ! sk)"
      with run_snoc(2) obtain answer where "S_Auth sk answer \<in> set ls" "vouched answer = Some (word_of_int getuid)" by blast
      then show ?thesis by (intro exI [of _ answer]) simp
    qed (simp, blast)
  qed
  moreover have "sk < length (sv_links u) \<and> li_ok (sv_links u ! sk)" if "S_Line sk line \<in> set (ls @ [l])" for sk line
  proof (cases "S_Line sk line \<in> set ls")
    case True
    then show ?thesis using run_snoc(2) step_keeps_ok [OF run_snoc(3)] by blast
  next
    case False
    with that have l: "l = S_Line sk line" by simp
    with run_snoc(3) have "phase_of t sk = Some Reading" by (auto elim: server_stepE)
    then have "sk < length (sv_links t)" "li_phase (sv_links t ! sk) = Reading" by (auto simp: phase_of_def split: if_splits)
    then have "li_ok (sv_links t ! sk)" using run_snoc(2) unfolding core_server.server_inv_def core_server.link_inv_def by blast
    with \<open>sk < length (sv_links t)\<close> show ?thesis using step_keeps_ok [OF run_snoc(3)] by blast
  qed
  ultimately show ?case by blast
qed

text \<open>
  C5: In every interleaving of connections, background work and shutdown: a connection for which
  the kernel has not vouched with the daemon's own uid is sent not a single byte, has no line
  handled, and is unknown to the bus; no other subscriber's message ever goes to it.
\<close>

theorem unauthorised_peers_are_isolated:
  assumes "run (server_step core_handler (core_work j) rt_ok getuid) (New opts (NewCore v f)) ls s"
    and "sk < length (sv_links s)"
    and "\<forall>answer. S_Auth sk answer \<in> set ls \<longrightarrow> vouched answer \<noteq> Some (word_of_int getuid)"
  shows "cn_out (li_conn (sv_links s ! sk)) = [] \<and> sk \<notin> sinks (co_bus (sv_handler s)) \<and> (\<forall>line. S_Line sk line \<notin> set ls)"
proof -
  have "\<not> li_ok (sv_links s ! sk)" using history [OF assms(1)] assms(2,3) by blast
  then show ?thesis
    using history [OF assms(1)] assms(2) unfolding core_server.server_inv_def core_server.link_inv_def by blast
qed

text \<open>A run with a foreign peer: it is accepted, put into the table, and refused.\<close>

definition foreign_peer :: "credentials option" where "foreign_peer = Some (Ucred (Inr (Some 1001)))"

definition refused :: "Core Server" where
  "refused = serve_auth 1000 (sample_env 0) 0 foreign_peer (track 0 True (set_phase 0 Tracked (accept sample_server)))"

lemma refused_run:
  "run (server_step core_handler (core_work j) rt_ok 1000) sample_server [S_Accept, S_Track 0, S_Auth 0 foreign_peer] refused"
proof (intro run_Cons run.run_Nil)
  show "server_step core_handler (core_work j) rt_ok 1000 sample_server S_Accept (accept sample_server)"
    by (rule server_step.accept) (simp add: sample_server_def New_def)
  show "server_step core_handler (core_work j) rt_ok 1000 (accept sample_server) (S_Track 0)
      (track 0 True (set_phase 0 Tracked (accept sample_server)))"
    by (rule server_step.track) (simp add: sample_server_def New_def accept_def phase_of_def)
  show "server_step core_handler (core_work j) rt_ok 1000 (track 0 True (set_phase 0 Tracked (accept sample_server)))
      (S_Auth 0 foreign_peer) refused"
    unfolding refused_def
    by (rule server_step.auth)
       (simp_all add: sample_server_def New_def accept_def phase_of_def set_phase_def modify_link_def sample_env_def)
qed simp

lemma refused_length: "length (sv_links refused) = 1"
  by (simp add: refused_def serve_auth_def sample_server_def New_def accept_def)

theorem unauthorised_peers_are_isolated_witness:
  "0 < length (sv_links refused) \<and> cn_out (li_conn (sv_links refused ! 0)) = [] \<and> 0 \<notin> sinks (co_bus (sv_handler refused))"
proof -
  have "0 < length (sv_links refused)" by (simp only: refused_length)
  moreover have "\<forall>answer. S_Auth 0 answer \<in> set [S_Accept, S_Track 0, S_Auth 0 foreign_peer] \<longrightarrow>
      vouched answer \<noteq> Some (word_of_int 1000)"
    by (simp add: foreign_peer_def vouched_def)
  ultimately show ?thesis
    using unauthorised_peers_are_isolated [OF refused_run [unfolded sample_server_def]] by blast
qed



end
