(* ===== verification/Files.thy ===== *)
theory Files
  imports Prelude
begin

text \<open>
  The part of the operating system the daemon's start and stop use: files, directories and sockets
  named by paths, advisory locks, and listening sockets. Every call may also fail for reasons of
  the environment. Paths are compared as strings: the daemon only uses cleaned paths.
\<close>

type_synonym pid = nat

text \<open>A node: its permissions, and its content, or the process that bound the socket.\<close>

datatype node = N_Dir nat | N_File nat string | N_Sock nat pid

datatype errno = ENOENT | EEXIST | ENOTDIR | EISDIR | EWOULDBLOCK | EADDRINUSE | EIO

record OS =
  os_files :: "string \<rightharpoonup> node"
  os_locks :: "string \<rightharpoonup> pid"
  os_live :: "pid set"

text \<open>What goes wrong in a call beyond what the state explains; a write may stop half-way.\<close>

datatype fault = Fine | Fails | Partial nat

section \<open>Calls\<close>

text \<open>The path and its ancestors, outermost first: each prefix that ends before a \<open>/\<close>, and the path.\<close>

definition ancestors :: "string \<Rightarrow> string list" where
  "ancestors path =
     filter (\<lambda>p. p \<noteq> []) (map (\<lambda>i. take i path) (filter (\<lambda>i. path ! i = CHR ''/'') [0..<length path])) @ [path]"

fun make_dirs :: "nat \<Rightarrow> string list \<Rightarrow> OS \<Rightarrow> errno option \<times> OS" where
  "make_dirs perm [] w = (None, w)"
| "make_dirs perm (p # ps) w =
     (case os_files w p of
        None \<Rightarrow> make_dirs perm ps (w\<lparr>os_files := (os_files w)(p \<mapsto> N_Dir perm)\<rparr>)
      | Some (N_Dir m) \<Rightarrow> make_dirs perm ps w
      | Some x \<Rightarrow> (Some ENOTDIR, w))"

definition MkdirAll :: "fault \<Rightarrow> string \<Rightarrow> nat \<Rightarrow> OS \<Rightarrow> errno option \<times> OS" where
  "MkdirAll fl path perm w =
     (if fl \<noteq> Fine then (Some EIO, w)
      else if path = [] then (Some ENOENT, w)
      else make_dirs perm (ancestors path) w)"

definition Chmod :: "fault \<Rightarrow> string \<Rightarrow> nat \<Rightarrow> OS \<Rightarrow> errno option \<times> OS" where
  "Chmod fl path perm w =
     (if fl \<noteq> Fine then (Some EIO, w)
      else
        (case os_files w path of
           None \<Rightarrow> (Some ENOENT, w)
         | Some (N_Dir m) \<Rightarrow> (None, w\<lparr>os_files := (os_files w)(path \<mapsto> N_Dir perm)\<rparr>)
         | Some (N_File m s) \<Rightarrow> (None, w\<lparr>os_files := (os_files w)(path \<mapsto> N_File perm s)\<rparr>)
         | Some (N_Sock m p) \<Rightarrow> (None, w\<lparr>os_files := (os_files w)(path \<mapsto> N_Sock perm p)\<rparr>)))"

text \<open>\<open>os.WriteFile\<close> truncates an existing file and keeps its permissions.\<close>

definition WriteFile :: "fault \<Rightarrow> string \<Rightarrow> string \<Rightarrow> nat \<Rightarrow> OS \<Rightarrow> errno option \<times> OS" where
  "WriteFile fl path data perm w =
     (let written = (\<lambda>m.
            (case fl of
               Fine \<Rightarrow> (None, w\<lparr>os_files := (os_files w)(path \<mapsto> N_File m data)\<rparr>)
             | Partial n \<Rightarrow> (Some EIO, w\<lparr>os_files := (os_files w)(path \<mapsto> N_File m (take n data))\<rparr>)
             | Fails \<Rightarrow> (Some EIO, w)))
      in (case os_files w path of
            None \<Rightarrow> written perm
          | Some (N_File m s) \<Rightarrow> written m
          | Some x \<Rightarrow> (Some EISDIR, w)))"

definition ReadFile :: "fault \<Rightarrow> string \<Rightarrow> OS \<Rightarrow> errno + string" where
  "ReadFile fl path w =
     (if fl \<noteq> Fine then Inl EIO
      else (case os_files w path of
              None \<Rightarrow> Inl ENOENT | Some (N_File m s) \<Rightarrow> Inr s | Some x \<Rightarrow> Inl EISDIR))"

text \<open>\<open>rename\<close> replaces its target at once.\<close>

definition Rename :: "fault \<Rightarrow> string \<Rightarrow> string \<Rightarrow> OS \<Rightarrow> errno option \<times> OS" where
  "Rename fl old new w =
     (if fl \<noteq> Fine then (Some EIO, w)
      else
        (case (os_files w old, os_files w new) of
           (None, x) \<Rightarrow> (Some ENOENT, w)
         | (Some x, Some (N_Dir m)) \<Rightarrow> (Some EEXIST, w)
         | (Some x, y) \<Rightarrow> (None, w\<lparr>os_files := (os_files w)(old := None, new \<mapsto> x)\<rparr>)))"

definition Remove :: "fault \<Rightarrow> string \<Rightarrow> OS \<Rightarrow> errno option \<times> OS" where
  "Remove fl path w =
     (if fl \<noteq> Fine then (Some EIO, w)
      else if os_files w path = None then (Some ENOENT, w)
      else (None, w\<lparr>os_files := (os_files w)(path := None)\<rparr>))"

text \<open>\<open>OpenFile\<close> with \<open>O_CREATE | O_RDWR\<close>.\<close>

definition OpenFile :: "fault \<Rightarrow> string \<Rightarrow> nat \<Rightarrow> OS \<Rightarrow> errno option \<times> OS" where
  "OpenFile fl path perm w =
     (if fl \<noteq> Fine then (Some EIO, w)
      else
        (case os_files w path of
           None \<Rightarrow> (None, w\<lparr>os_files := (os_files w)(path \<mapsto> N_File perm [])\<rparr>)
         | Some (N_File m s) \<Rightarrow> (None, w)
         | Some x \<Rightarrow> (Some EISDIR, w)))"

text \<open>\<open>flock\<close> with \<open>LOCK_EX | LOCK_NB\<close>; the kernel releases it when the file is closed.\<close>

definition Flock :: "fault \<Rightarrow> pid \<Rightarrow> string \<Rightarrow> OS \<Rightarrow> errno option \<times> OS" where
  "Flock fl pid path w =
     (if fl \<noteq> Fine then (Some EIO, w)
      else
        (case os_locks w path of
           Some holder \<Rightarrow> (Some EWOULDBLOCK, w)
         | None \<Rightarrow> (None, w\<lparr>os_locks := (os_locks w)(path \<mapsto> pid)\<rparr>)))"

definition Unlock :: "string \<Rightarrow> OS \<Rightarrow> OS" where
  "Unlock path w = w\<lparr>os_locks := (os_locks w)(path := None)\<rparr>"

text \<open>\<open>net.Listen\<close> on a Unix socket binds the path, which must be free.\<close>

definition Listen :: "fault \<Rightarrow> pid \<Rightarrow> string \<Rightarrow> OS \<Rightarrow> errno option \<times> OS" where
  "Listen fl pid path w =
     (if fl \<noteq> Fine then (Some EIO, w)
      else if os_files w path \<noteq> None then (Some EADDRINUSE, w)
      else (None, w\<lparr>os_files := (os_files w)(path \<mapsto> N_Sock 493 pid), os_live := insert pid (os_live w)\<rparr>))"

text \<open>Closing a listener leaves its path (\<open>SetUnlinkOnClose(false)\<close>).\<close>

definition close_listener :: "pid \<Rightarrow> OS \<Rightarrow> OS" where
  "close_listener pid w = w\<lparr>os_live := os_live w - {pid}\<rparr>"

text \<open>A process that dies loses its locks and its listener; its files stay.\<close>

definition reap :: "pid \<Rightarrow> OS \<Rightarrow> OS" where
  "reap pid w = close_listener pid (w\<lparr>os_locks := (\<lambda>path. if os_locks w path = Some pid then None else os_locks w path)\<rparr>)"

text \<open>Whether a connection to a path reaches a listener.\<close>

definition reachable :: "OS \<Rightarrow> string \<Rightarrow> bool" where
  "reachable w path = (case os_files w path of Some (N_Sock m pid) \<Rightarrow> pid \<in> os_live w | _ \<Rightarrow> False)"

section \<open>Frames\<close>

lemma make_dirs_files:
  "os_files (snd (make_dirs perm ps w)) p = os_files w p \<or>
     os_files w p = None \<and> p \<in> set ps \<and> os_files (snd (make_dirs perm ps w)) p = Some (N_Dir perm)"
  by (induction perm ps w rule: make_dirs.induct) (auto split: option.splits node.splits if_splits)

lemma make_dirs_sel [simp]:
  "os_locks (snd (make_dirs perm ps w)) = os_locks w" "os_live (snd (make_dirs perm ps w)) = os_live w"
  by (induction perm ps w rule: make_dirs.induct) (auto split: option.splits node.splits)

lemma call_locks [simp]:
  "os_locks (snd (MkdirAll fl path perm w)) = os_locks w" "os_locks (snd (Chmod fl path perm w)) = os_locks w"
  "os_locks (snd (WriteFile fl path data perm w)) = os_locks w" "os_locks (snd (Rename fl old new w)) = os_locks w"
  "os_locks (snd (Remove fl path w)) = os_locks w" "os_locks (snd (OpenFile fl path perm w)) = os_locks w"
  "os_locks (snd (Listen fl pid path w)) = os_locks w" "os_locks (close_listener pid w) = os_locks w"
  by (auto simp: MkdirAll_def Chmod_def WriteFile_def Rename_def Remove_def OpenFile_def Listen_def close_listener_def Let_def
      split: option.split node.split fault.split)

lemma call_live [simp]:
  "os_live (snd (MkdirAll fl path perm w)) = os_live w" "os_live (snd (Chmod fl path perm w)) = os_live w"
  "os_live (snd (WriteFile fl path data perm w)) = os_live w" "os_live (snd (Rename fl old new w)) = os_live w"
  "os_live (snd (Remove fl path w)) = os_live w" "os_live (snd (OpenFile fl path perm w)) = os_live w"
  "os_live (snd (Flock fl pid path w)) = os_live w" "os_live (Unlock path w) = os_live w"
  by (auto simp: MkdirAll_def Chmod_def WriteFile_def Rename_def Remove_def OpenFile_def Flock_def Unlock_def Let_def
      split: option.split node.split fault.split)

lemma call_files:
  "q \<noteq> path \<Longrightarrow> os_files (snd (Chmod fl path perm w)) q = os_files w q"
  "q \<noteq> path \<Longrightarrow> os_files (snd (WriteFile fl path data perm w)) q = os_files w q"
  "q \<noteq> old \<Longrightarrow> q \<noteq> new \<Longrightarrow> os_files (snd (Rename fl old new w)) q = os_files w q"
  "q \<noteq> path \<Longrightarrow> os_files (snd (Remove fl path w)) q = os_files w q"
  "q \<noteq> path \<Longrightarrow> os_files (snd (OpenFile fl path perm w)) q = os_files w q"
  "q \<noteq> path \<Longrightarrow> os_files (snd (Listen fl pid path w)) q = os_files w q"
  "os_files (snd (Flock fl pid path w)) = os_files w" "os_files (Unlock path w) = os_files w"
  "os_files (close_listener pid w) = os_files w"
  by (auto simp: Chmod_def WriteFile_def Rename_def Remove_def OpenFile_def Listen_def Flock_def Unlock_def
      close_listener_def Let_def split: option.split node.split fault.split)

lemma MkdirAll_files:
  "os_files (snd (MkdirAll fl path perm w)) p = os_files w p \<or>
     os_files w p = None \<and> os_files (snd (MkdirAll fl path perm w)) p = Some (N_Dir perm)"
  using make_dirs_files [of perm "ancestors path" w p] by (auto simp: MkdirAll_def)

end
