(* ===== verification/Lifecycle.thy ===== *)
theory Lifecycle
  imports Files RoundTrip
begin

text \<open>
  The daemon's info file, its lock and the probe for a live daemon
  (\<open>daemon/internal/lifecycle/lifecycle.go\<close>).
\<close>

section \<open>The info file\<close>

record Info =
  in_PID :: int
  in_SocketPath :: string
  in_Version :: string
  in_StartedAt :: Time

text \<open>Everything before the last slash; the current directory if there is none.\<close>

definition dirOf :: "string \<Rightarrow> string" where
  "dirOf path =
     (if CHR ''/'' \<in> set path then rev (tl (dropWhile (\<lambda>c. c \<noteq> CHR ''/'') (rev path))) else ''.'')"

definition info_members :: "int \<Rightarrow> Info \<Rightarrow> member list option" where
  "info_members off i =
     map_option (\<lambda>t. [(''pid'', int_value (in_PID i)), (''socket_path'', str_value (in_SocketPath i)),
       (''version'', str_value (in_Version i)), (''started_at'', t)]) (time_value off (in_StartedAt i))"

definition info_fields :: "Info field list" where
  "info_fields = [int_field ''pid'' in_PID_update, str_field ''socket_path'' in_SocketPath_update,
     str_field ''version'' in_Version_update, time_field ''started_at'' in_StartedAt_update]"

definition zero_info :: Info where
  "zero_info = \<lparr>in_PID = 0, in_SocketPath = [], in_Version = [], in_StartedAt = zero_Time\<rparr>"

definition marshal_info :: "int \<Rightarrow> Info \<Rightarrow> string option" where
  "marshal_info off i = map_option (\<lambda>ms. indented (V_Obj ms)) (info_members off i)"

definition unmarshal_info :: "string \<Rightarrow> Info option" where
  "unmarshal_info raw =
     (case parse_text raw of None \<Rightarrow> None | Some v \<Rightarrow> decode_struct info_fields v zero_info)"

datatype info_error = OsError errno | CorruptInfo string | MarshalError

definition ReadInfo :: "fault \<Rightarrow> string \<Rightarrow> OS \<Rightarrow> info_error + Info" where
  "ReadInfo fl path w =
     (case ReadFile fl path w of
        Inl err \<Rightarrow> Inl (OsError err)
      | Inr raw \<Rightarrow> (case unmarshal_info raw of None \<Rightarrow> Inl (CorruptInfo path) | Some i \<Rightarrow> Inr i))"

text \<open>The faults of the three calls of \<open>WriteInfo\<close>, in order.\<close>

definition tmp_of :: "string \<Rightarrow> string" where "tmp_of path = path @ ''.tmp''"

definition WriteInfo :: "fault \<times> fault \<times> fault \<Rightarrow> int \<Rightarrow> string \<Rightarrow> Info \<Rightarrow> OS \<Rightarrow> info_error option \<times> OS" where
  "WriteInfo fls off path i w =
     (case fls of (f1, f2, f3) \<Rightarrow>
        (case marshal_info off i of
           None \<Rightarrow> (Some MarshalError, w)
         | Some raw \<Rightarrow>
             (case MkdirAll f1 (dirOf path) 448 w of
                (Some err, w1) \<Rightarrow> (Some (OsError err), w1)
              | (None, w1) \<Rightarrow>
                  (case WriteFile f2 (tmp_of path) raw 384 w1 of
                     (Some err, w2) \<Rightarrow> (Some (OsError err), w2)
                   | (None, w2) \<Rightarrow>
                       (case Rename f3 (tmp_of path) path w2 of
                          (Some err, w3) \<Rightarrow> (Some (OsError err), w3)
                        | (None, w3) \<Rightarrow> (None, w3))))))"

definition RemoveInfo :: "fault \<Rightarrow> string \<Rightarrow> OS \<Rightarrow> OS" where
  "RemoveInfo fl path w = snd (Remove fl path w)"

section \<open>The lock\<close>

datatype lock_error = ErrAlreadyRunning | LockOsError errno

definition AcquireLock :: "fault \<times> fault \<times> fault \<Rightarrow> pid \<Rightarrow> string \<Rightarrow> OS \<Rightarrow> lock_error option \<times> OS" where
  "AcquireLock fls pid path w =
     (case fls of (f1, f2, f3) \<Rightarrow>
        (case MkdirAll f1 (dirOf path) 448 w of
           (Some err, w1) \<Rightarrow> (Some (LockOsError err), w1)
         | (None, w1) \<Rightarrow>
             (case OpenFile f2 path 384 w1 of
                (Some err, w2) \<Rightarrow> (Some (LockOsError err), w2)
              | (None, w2) \<Rightarrow>
                  (case Flock f3 pid path w2 of
                     (Some err, w3) \<Rightarrow> (Some (if err = EWOULDBLOCK then ErrAlreadyRunning else LockOsError err), w3)
                   | (None, w3) \<Rightarrow> (None, w3)))))"

section \<open>The probe\<close>

text \<open>
  \<open>DaemonAlive\<close>, from what the network does: whether the dial and the write succeed within the
  timeout, and the bytes that arrive before it.
\<close>

record Dial =
  di_dialed :: bool
  di_wrote :: bool
  di_reply :: string

definition DaemonAlive :: "Dial \<Rightarrow> bool" where
  "DaemonAlive d =
     (if \<not> di_dialed d then False
      else
        (case Encode 0 PingMsg of
           None \<Rightarrow> False
         | Some line \<Rightarrow> if \<not> di_wrote d then False else ReadBytes (di_reply d) \<noteq> None))"

section \<open>Facts\<close>

lemma DaemonAlive_iff: "DaemonAlive d \<longleftrightarrow> di_dialed d \<and> di_wrote d \<and> newline \<in> set (di_reply d)"
  by (simp add: DaemonAlive_def Encode_def message_members_def PingMsg_def ReadBytes_def)

lemma info_names [simp]: "name_ok ''pid''" "name_ok ''socket_path''" "name_ok ''version''" "name_ok ''started_at''"
  by (simp_all add: name_ok_def)

lemma info_fields_ok [simp]: "fields_ok info_fields"
  by (simp add: info_fields_def)

definition info_ok :: "Info \<Rightarrow> bool" where
  "info_ok i \<longleftrightarrow> int64 (in_PID i) \<and> valid_utf8 (in_SocketPath i) \<and> valid_utf8 (in_Version i)"

lemma unmarshal_marshal:
  assumes "marshal_info off i = Some raw" "info_ok i"
  shows "unmarshal_info raw = Some i"
proof -
  obtain t where t: "time_value off (in_StartedAt i) = Some t" and raw: "raw = indented (V_Obj
      [(''pid'', int_value (in_PID i)), (''socket_path'', str_value (in_SocketPath i)),
       (''version'', str_value (in_Version i)), (''started_at'', t)])" (is "raw = indented (V_Obj ?ms)")
    using assms(1) by (auto simp: marshal_info_def info_members_def)
  have "written 0 ?ms" using t by (simp add: time_atom)
  then have "parse_text raw = Some (V_Obj ?ms)"
    unfolding raw using jdepth_Obj [of 0 ?ms] by (intro parse_indented wf_Obj) (simp_all add: maxNestingDepth_def)
  moreover have "decode_members info_fields ?ms zero_info = Some i"
    using assms(2) t
    by (cases i) (simp add: decode_member lookup_defs info_fields_def [THEN arg_cong [of _ _ lookup]] zero_info_def info_ok_def)
  ultimately show ?thesis by (simp add: unmarshal_info_def decode_struct_def)
qed

lemma dirOf_shorter: "CHR ''/'' \<in> set path \<Longrightarrow> length (dirOf path) < length path"
proof -
  assume slash: "CHR ''/'' \<in> set path"
  let ?r = "dropWhile (\<lambda>c. c \<noteq> CHR ''/'') (rev path)"
  have "?r \<noteq> []" using slash by (auto simp: dropWhile_eq_Nil_conv)
  then have "length (tl ?r) < length ?r" by (cases ?r) auto
  also have "length ?r \<le> length path" using length_dropWhile_le [of "\<lambda>c. c \<noteq> CHR ''/''" "rev path"] by simp
  finally show ?thesis using slash by (simp add: dirOf_def)
qed

lemma ancestors_length: "p \<in> set (ancestors path) \<Longrightarrow> length p \<le> length path"
  by (auto simp: ancestors_def)

text \<open>The paths a call can change, apart from directories it creates where nothing was.\<close>

lemma MkdirAll_above:
  "CHR ''/'' \<in> set path \<Longrightarrow> length path \<le> length p \<Longrightarrow>
     os_files (snd (MkdirAll fl (dirOf path) perm w)) p = os_files w p"
  using make_dirs_files [of perm "ancestors (dirOf path)" w p] ancestors_length [of p "dirOf path"] dirOf_shorter [of path]
  by (auto simp: MkdirAll_def)

lemma WriteInfo_files:
  assumes "p \<noteq> path" "p \<noteq> tmp_of path" "os_files w p \<noteq> None"
  shows "os_files (snd (WriteInfo fls off path i w)) p = os_files w p"
  using assms MkdirAll_files [of _ "dirOf path" 448 w p] call_files(2,3) [of p]
  by (auto simp: WriteInfo_def split: prod.split option.split) (metis snd_conv)+

lemma WriteInfo_sel [simp]:
  "os_locks (snd (WriteInfo fls off path i w)) = os_locks w" "os_live (snd (WriteInfo fls off path i w)) = os_live w"
proof -
  have "os_locks (snd (WriteInfo fls off path i w)) = os_locks w \<and> os_live (snd (WriteInfo fls off path i w)) = os_live w"
    unfolding WriteInfo_def
    by (auto split: prod.split option.split) (metis call_locks call_live snd_conv)+
  then show "os_locks (snd (WriteInfo fls off path i w)) = os_locks w" "os_live (snd (WriteInfo fls off path i w)) = os_live w"
    by simp_all
qed

text \<open>The info file is replaced as a whole or not at all.\<close>

lemma WriteInfo_atomic:
  assumes "CHR ''/'' \<in> set path" "WriteInfo fls off path i w = (r, w')"
  shows "r \<noteq> None \<Longrightarrow> os_files w' path = os_files w path"
    and "r = None \<Longrightarrow> \<exists>m raw. marshal_info off i = Some raw \<and> os_files w' path = Some (N_File m raw)"
proof -
  obtain f1 f2 f3 where fls: "fls = (f1, f2, f3)" by (cases fls)
  have tmp: "tmp_of path \<noteq> path" "path \<noteq> tmp_of path" by (simp_all add: tmp_of_def)
  have dir: "os_files (snd (MkdirAll f1 (dirOf path) 448 w)) path = os_files w path"
    using assms(1) by (intro MkdirAll_above) auto
  show "r \<noteq> None \<Longrightarrow> os_files w' path = os_files w path"
    using assms(2) dir tmp call_files(2)
    by (auto simp: WriteInfo_def fls Rename_def split: prod.splits option.splits if_splits node.splits) (metis snd_conv)+
  show "\<exists>m raw. marshal_info off i = Some raw \<and> os_files w' path = Some (N_File m raw)" if "r = None"
    using assms(2) that tmp
    by (auto simp: WriteInfo_def fls Rename_def WriteFile_def Let_def split: prod.splits option.splits if_splits node.splits fault.splits)
qed

end
