(* ===== verification/Config.thy ===== *)
theory Config
  imports Prelude
begin

text \<open>
  The daemon's paths (\<open>daemon/internal/config/config.go\<close>), with the parts of \<open>path/filepath\<close> they
  are built with.
\<close>

section \<open>Paths\<close>

abbreviation slash :: char where "slash \<equiv> CHR ''/''"

text \<open>
  \<open>filepath.Clean\<close>: the components without empty ones and \<open>.\<close>, each \<open>..\<close> taking back the
  component before it; the first argument tells a rooted path, whose root has no parent.
\<close>

fun clean_parts :: "bool \<Rightarrow> string list \<Rightarrow> string list \<Rightarrow> string list" where
  "clean_parts rooted st [] = rev st"
| "clean_parts rooted st (p # ps) =
     (if p = [] \<or> p = ''.'' then clean_parts rooted st ps
      else if p = ''..'' then
        (if st \<noteq> [] \<and> hd st \<noteq> ''..'' then clean_parts rooted (tl st) ps
         else if rooted then clean_parts rooted st ps
         else clean_parts rooted (p # st) ps)
      else clean_parts rooted (p # st) ps)"

definition Clean :: "string \<Rightarrow> string" where
  "Clean path =
     (if path = [] then ''.''
      else
        let rooted = (hd path = slash);
            body = Join (clean_parts rooted [] (Split path slash)) [slash]
        in if rooted then slash # body else if body = [] then ''.'' else body)"

text \<open>\<open>filepath.Join\<close> starts at the first element that is not empty.\<close>

definition path_Join :: "string list \<Rightarrow> string" where
  "path_Join elems =
     (case dropWhile (\<lambda>e. e = []) elems of [] \<Rightarrow> [] | es \<Rightarrow> Clean (Join es [slash]))"

definition path_Dir :: "string \<Rightarrow> string" where
  "path_Dir path = Clean (rev (dropWhile (\<lambda>c. c \<noteq> slash) (rev path)))"

section \<open>The configuration\<close>

record Config =
  cf_SocketPath :: string
  cf_InfoPath :: string
  cf_LockPath :: string

text \<open>\<open>os.UserHomeDir\<close>: an error when \<open>$HOME\<close> is empty.\<close>

definition UserHomeDir :: "(string \<Rightarrow> string) \<Rightarrow> string + string" where
  "UserHomeDir getenv = (if getenv ''HOME'' = [] then Inl ''$HOME is not defined'' else Inr (getenv ''HOME''))"

definition base_dir :: "(string \<Rightarrow> string) \<Rightarrow> string + string" where
  "base_dir getenv =
     (if getenv ''WAITING_ROOM_HOME'' = [] then
        (case UserHomeDir getenv of Inl err \<Rightarrow> Inl err | Inr home \<Rightarrow> Inr (path_Join [home, ''.waiting-room'']))
      else Inr (getenv ''WAITING_ROOM_HOME''))"

definition socket_path :: "(string \<Rightarrow> string) \<Rightarrow> string \<Rightarrow> string" where
  "socket_path getenv base =
     (if getenv ''WAITING_ROOM_SOCKET'' = [] then
        let runtimeDir =
              (if getenv ''XDG_RUNTIME_DIR'' = [] \<or> getenv ''WAITING_ROOM_HOME'' \<noteq> [] then path_Join [base, ''run'']
               else getenv ''XDG_RUNTIME_DIR'')
        in path_Join [runtimeDir, ''waiting-room'', ''daemon.sock'']
      else getenv ''WAITING_ROOM_SOCKET'')"

definition Default :: "(string \<Rightarrow> string) \<Rightarrow> string + Config" where
  "Default getenv =
     (case base_dir getenv of
        Inl err \<Rightarrow> Inl err
      | Inr base \<Rightarrow>
          Inr \<lparr>cf_SocketPath = socket_path getenv base, cf_InfoPath = path_Join [base, ''daemon.info''],
               cf_LockPath = path_Join [base, ''daemon.lock'']\<rparr>)"

section \<open>Cleaned absolute paths\<close>

definition component :: "string \<Rightarrow> bool" where
  "component p \<longleftrightarrow> p \<noteq> [] \<and> slash \<notin> set p \<and> p \<noteq> ''.'' \<and> p \<noteq> ''..''"

definition absolute :: "string list \<Rightarrow> string" where
  "absolute ps = concat (map (\<lambda>p. slash # p) ps)"

lemma Split_component: "slash \<notin> set p \<Longrightarrow> Split (p @ slash # s) slash = p # Split s slash"
  by (induction p) (auto split: list.splits)

lemma Split_plain: "slash \<notin> set p \<Longrightarrow> Split p slash = [p]"
  by (induction p) auto

lemma Split_absolute:
  "ps \<noteq> [] \<Longrightarrow> \<forall>p \<in> set ps. component p \<Longrightarrow> Split (absolute ps) slash = [] # ps"
proof -
  have "\<forall>p \<in> set (p # ps). component p \<Longrightarrow> Split (p @ absolute ps) slash = p # ps" for p ps
  proof (induction ps arbitrary: p)
    case Nil
    then show ?case by (simp add: absolute_def Split_plain component_def)
  next
    case (Cons q ps)
    then show ?case by (simp add: absolute_def Split_component component_def)
  qed
  then show "ps \<noteq> [] \<Longrightarrow> \<forall>p \<in> set ps. component p \<Longrightarrow> Split (absolute ps) slash = [] # ps"
    by (cases ps) (simp_all add: absolute_def)
qed

lemma clean_components:
  "\<forall>p \<in> set ps. component p \<Longrightarrow> clean_parts rooted st ps = rev st @ ps"
  by (induction ps arbitrary: st) (auto simp: component_def)

lemma Join_absolute: "ps \<noteq> [] \<Longrightarrow> slash # Join ps [slash] = absolute ps"
proof (induction ps)
  case (Cons p ps)
  then show ?case by (cases ps) (simp_all add: absolute_def)
qed simp

lemma Clean_absolute: "ps \<noteq> [] \<Longrightarrow> \<forall>p \<in> set ps. component p \<Longrightarrow> Clean (absolute ps) = absolute ps"
  using Join_absolute [of ps] Split_absolute [of ps] clean_components [of ps True "[]"]
  by (cases ps) (simp_all add: Clean_def absolute_def)

text \<open>Joining relative components to a cleaned absolute path appends them.\<close>

lemma Join_append: "ps \<noteq> [] \<Longrightarrow> qs \<noteq> [] \<Longrightarrow> Join (ps @ qs) sep = Join ps sep @ sep @ Join qs sep"
  by (induction ps sep rule: Join.induct) (auto simp: neq_Nil_conv)

lemma path_Join_absolute:
  assumes "ps \<noteq> []" "\<forall>p \<in> set (ps @ qs). component p" "qs \<noteq> []"
  shows "path_Join (absolute ps # qs) = absolute (ps @ qs)"
proof -
  have "absolute ps \<noteq> []" using assms(1) by (cases ps) (simp_all add: absolute_def)
  moreover have "Join (absolute ps # qs) [slash] = absolute ps @ slash # Join qs [slash]"
    using assms(3) by (cases qs) simp_all
  ultimately show ?thesis
    using Join_absolute [OF assms(3)] Clean_absolute [of "ps @ qs"] assms
    by (simp add: path_Join_def absolute_def)
qed

lemma absolute_inject:
  assumes "\<forall>p \<in> set ps. component p" "\<forall>p \<in> set qs. component p"
  shows "absolute ps = absolute qs \<longleftrightarrow> ps = qs"
proof (cases "ps = [] \<or> qs = []")
  case True
  then show ?thesis by (cases ps; cases qs) (simp_all add: absolute_def)
next
  case False
  show ?thesis
  proof
    assume "absolute ps = absolute qs"
    then have "Split (absolute ps) slash = Split (absolute qs) slash" by (rule arg_cong)
    with False assms show "ps = qs" by (simp add: Split_absolute)
  qed simp
qed

section \<open>Isolation\<close>

definition homes :: "string list \<Rightarrow> (string \<Rightarrow> string) \<Rightarrow> bool" where
  "homes ps getenv \<longleftrightarrow> ps \<noteq> [] \<and> (\<forall>p \<in> set ps. component p) \<and> getenv ''WAITING_ROOM_SOCKET'' = [] \<and>
     getenv ''WAITING_ROOM_HOME'' = absolute ps"

lemma components [simp]:
  "component ''run''" "component ''waiting-room''" "component ''daemon.sock''" "component ''daemon.info''"
  "component ''daemon.lock''" "component ''.waiting-room''"
  by (simp_all add: component_def)

lemma Default_home:
  assumes "homes ps getenv"
  shows "Default getenv = Inr \<lparr>cf_SocketPath = absolute (ps @ [''run'', ''waiting-room'', ''daemon.sock'']),
    cf_InfoPath = absolute (ps @ [''daemon.info'']), cf_LockPath = absolute (ps @ [''daemon.lock''])\<rparr>"
proof -
  have h: "ps \<noteq> []" "\<forall>p \<in> set ps. component p" "getenv ''WAITING_ROOM_HOME'' = absolute ps" "absolute ps \<noteq> []"
    using assms by (auto simp: homes_def absolute_def neq_Nil_conv)
  have "path_Join [absolute ps, ''run''] = absolute (ps @ [''run''])"
    "path_Join [absolute (ps @ [''run'']), ''waiting-room'', ''daemon.sock''] =
       absolute ((ps @ [''run'']) @ [''waiting-room'', ''daemon.sock''])"
    "path_Join [absolute ps, ''daemon.info''] = absolute (ps @ [''daemon.info''])"
    "path_Join [absolute ps, ''daemon.lock''] = absolute (ps @ [''daemon.lock''])"
    using h by (auto intro!: path_Join_absolute simp del: append_assoc)
  with h assms show ?thesis by (simp add: Default_def base_dir_def socket_path_def homes_def)
qed

text \<open>All paths of a configuration.\<close>

definition paths :: "Config \<Rightarrow> string list" where
  "paths cfg = [cf_SocketPath cfg, cf_InfoPath cfg, cf_LockPath cfg]"

lemma paths_apart:
  assumes "homes ps g" "homes qs g'" "Default g = Inr a" "Default g' = Inr b" "ps \<noteq> qs"
  shows "distinct (paths a)" and "set (paths a) \<inter> set (paths b) = {}"
proof -
  have c: "\<forall>p \<in> set ps. component p" "\<forall>p \<in> set qs. component p" using assms(1,2) by (simp_all add: homes_def)
  have a: "a = \<lparr>cf_SocketPath = absolute (ps @ [''run'', ''waiting-room'', ''daemon.sock'']),
      cf_InfoPath = absolute (ps @ [''daemon.info'']), cf_LockPath = absolute (ps @ [''daemon.lock''])\<rparr>"
    and b: "b = \<lparr>cf_SocketPath = absolute (qs @ [''run'', ''waiting-room'', ''daemon.sock'']),
      cf_InfoPath = absolute (qs @ [''daemon.info'']), cf_LockPath = absolute (qs @ [''daemon.lock''])\<rparr>"
    using assms Default_home by fastforce+
  show "distinct (paths a)" using c by (simp add: a paths_def absolute_inject)
  have kinds: "ps @ [''run'', ''waiting-room'', ''daemon.sock''] \<noteq> qs @ [x]" "qs @ [''run'', ''waiting-room'', ''daemon.sock''] \<noteq> ps @ [x]"
    if "x \<noteq> ''daemon.sock''" for x
    using that by (auto dest: arg_cong [of _ _ last])
  show "set (paths a) \<inter> set (paths b) = {}"
    using c kinds [of "''daemon.info''"] kinds [of "''daemon.lock''"] kinds(2) [of "''daemon.info''", symmetric]
      kinds(2) [of "''daemon.lock''", symmetric] assms(5)
    by (simp add: a b paths_def absolute_inject)
qed

end
