(* ===== verification/Flags.thy ===== *)
theory Flags
  imports Prelude
begin

text \<open>
  Go's \<open>flag\<close> package as the commands use it: \<open>FlagSet.Parse\<close> for string and boolean flags with
  \<open>flag.ContinueOnError\<close>, so that every error is returned.
\<close>

datatype flag_kind = StringFlag | BoolFlag

datatype flag_value = StringValue string | BoolValue bool

datatype flag_error = BadSyntax string | NotDefined string | NeedsArgument string | InvalidBool string | ErrHelp

type_synonym flag_set = "(string \<times> flag_kind) list"
type_synonym flag_values = "(string, flag_value) gomap"

definition ParseBool :: "string \<Rightarrow> bool option" where
  "ParseBool s =
     (if s \<in> {''1'', ''t'', ''T'', ''TRUE'', ''true'', ''True''} then Some True
      else if s \<in> {''0'', ''f'', ''F'', ''FALSE'', ''false'', ''False''} then Some False
      else None)"

text \<open>A flag token without its minuses: its name, and the value after \<open>=\<close>.\<close>

definition split_flag :: "string \<Rightarrow> string \<times> string option" where
  "split_flag s =
     (case IndexByte s (CHR ''='') of None \<Rightarrow> (s, None) | Some i \<Rightarrow> (take i s, Some (drop (Suc i) s)))"

text \<open>The token's text after one or two minuses; \<open>None\<close> for a token that is not a flag.\<close>

definition flag_text :: "string \<Rightarrow> string option" where
  "flag_text s =
     (if length s < 2 \<or> hd s \<noteq> CHR ''-'' then None
      else if s ! 1 = CHR ''-'' then Some (drop 2 s) else Some (drop 1 s))"

fun Parse :: "flag_set \<Rightarrow> string list \<Rightarrow> flag_values \<Rightarrow> flag_error + (flag_values \<times> string list)" where
  "Parse fs [] vals = Inr (vals, [])"
| "Parse fs (s # args) vals =
     (case flag_text s of
        None \<Rightarrow> Inr (vals, s # args)
      | Some t \<Rightarrow>
          if s = ''--'' then Inr (vals, args)
          else if t = [] \<or> hd t = CHR ''-'' \<or> hd t = CHR ''='' then Inl (BadSyntax s)
          else
            (case split_flag t of (name, value) \<Rightarrow>
              (case map_of fs name of
                 None \<Rightarrow> if name = ''help'' \<or> name = ''h'' then Inl ErrHelp else Inl (NotDefined name)
               | Some BoolFlag \<Rightarrow>
                   (case value of
                      None \<Rightarrow> Parse fs args (AList.update name (BoolValue True) vals)
                    | Some v \<Rightarrow>
                        (case ParseBool v of
                           None \<Rightarrow> Inl (InvalidBool v)
                         | Some b \<Rightarrow> Parse fs args (AList.update name (BoolValue b) vals)))
               | Some StringFlag \<Rightarrow>
                   (case value of
                      Some v \<Rightarrow> Parse fs args (AList.update name (StringValue v) vals)
                    | None \<Rightarrow>
                        (case args of
                           [] \<Rightarrow> Inl (NeedsArgument name)
                         | v # rest \<Rightarrow> Parse fs rest (AList.update name (StringValue v) vals))))))"

text \<open>The value of a flag after parsing; its default is the empty string or false.\<close>

definition string_of :: "flag_values \<Rightarrow> string \<Rightarrow> string" where
  "string_of vals name = (case map_of vals name of Some (StringValue s) \<Rightarrow> s | _ \<Rightarrow> [])"

definition bool_of :: "flag_values \<Rightarrow> string \<Rightarrow> bool" where
  "bool_of vals name = (case map_of vals name of Some (BoolValue b) \<Rightarrow> b | _ \<Rightarrow> False)"

end
