(* ===== verification/Startup.thy ===== *)
theory Startup
  imports Lifecycle Config Flags
begin

text \<open>
  Starting and stopping the daemon: \<open>Server.listen\<close>, the beginning and the end of \<open>Server.Run\<close>,
  \<open>teardown\<close> (\<open>daemon/internal/server/server.go\<close>) and \<open>runDaemon\<close>
  (\<open>daemon/cmd/waiting-room/daemon.go\<close>); and several daemon processes on one machine, interleaved,
  any of which may die at any point.
\<close>

section \<open>Listening and tearing down\<close>

datatype start_error =
  CreateDir errno
| AlreadyListening
| RemoveStale errno
| ListenError errno
| ChmodSocket errno
| WriteInfoError info_error

text \<open>\<open>fl n\<close> is the fault of the \<open>n\<close>-th call, \<open>probe\<close> what the probe of the socket meets.\<close>

definition bind_socket :: "(nat \<Rightarrow> fault) \<Rightarrow> pid \<Rightarrow> string \<Rightarrow> OS \<Rightarrow> start_error option \<times> OS" where
  "bind_socket fl pid path w =
     (case Listen (fl 3) pid path w of
        (Some err, w1) \<Rightarrow> (Some (ListenError err), w1)
      | (None, w1) \<Rightarrow>
          (case Chmod (fl 4) path 384 w1 of
             (Some err, w2) \<Rightarrow> (Some (ChmodSocket err), close_listener pid w2)
           | (None, w2) \<Rightarrow> (None, w2)))"

definition listen :: "(nat \<Rightarrow> fault) \<Rightarrow> Dial \<Rightarrow> pid \<Rightarrow> string \<Rightarrow> OS \<Rightarrow> start_error option \<times> OS" where
  "listen fl probe pid path w =
     (let dir = path_Dir path in
      case MkdirAll (fl 0) dir 448 w of
        (Some err, w1) \<Rightarrow> (Some (CreateDir err), w1)
      | (None, w1) \<Rightarrow>
          let w2 = snd (Chmod (fl 1) dir 448 w1) in
          if DaemonAlive probe then (Some AlreadyListening, w2)
          else
            (case Remove (fl 2) path w2 of
               (Some err, w3) \<Rightarrow> if err \<noteq> ENOENT then (Some (RemoveStale err), w3) else bind_socket fl pid path w3
             | (None, w3) \<Rightarrow> bind_socket fl pid path w3))"

text \<open>The connections are closed by the steps of the server; here is what happens to the system.\<close>

definition teardown :: "fault \<times> fault \<Rightarrow> pid \<Rightarrow> Config \<Rightarrow> OS \<Rightarrow> OS" where
  "teardown fls pid cfg w =
     (case fls of (f1, f2) \<Rightarrow>
        let w1 = snd (Remove f1 (cf_SocketPath cfg) (close_listener pid w))
        in if cf_InfoPath cfg \<noteq> [] then RemoveInfo f2 (cf_InfoPath cfg) w1 else w1)"

text \<open>\<open>Run\<close> up to the accept loop: listen, then write the info file; a failure there tears down.\<close>

definition run_start ::
  "(nat \<Rightarrow> fault) \<Rightarrow> fault \<times> fault \<times> fault \<Rightarrow> fault \<times> fault \<Rightarrow> Dial \<Rightarrow> int \<Rightarrow> pid \<Rightarrow> Config \<Rightarrow> Info \<Rightarrow> OS
     \<Rightarrow> start_error option \<times> OS" where
  "run_start fl fi ft probe off pid cfg i w =
     (case listen fl probe pid (cf_SocketPath cfg) w of
        (Some err, w1) \<Rightarrow> (Some err, w1)
      | (None, w1) \<Rightarrow>
          if cf_InfoPath cfg \<noteq> [] then
            (case WriteInfo fi off (cf_InfoPath cfg) i w1 of
               (Some err, w2) \<Rightarrow> (Some (WriteInfoError err), teardown ft pid cfg w2)
             | (None, w2) \<Rightarrow> (None, w2))
          else (None, w1))"

section \<open>The daemon command\<close>

definition daemon_flags :: flag_set where
  "daemon_flags = [(''socket'', StringFlag), (''no-janitor'', BoolFlag)]"

datatype 'a outcome = Exit int | Continue 'a

text \<open>Flags, then the configuration with the socket override; the flag tells whether the janitor runs.\<close>

definition daemon_config :: "(string \<Rightarrow> string) \<Rightarrow> string list \<Rightarrow> (Config \<times> bool) outcome" where
  "daemon_config getenv args =
     (case Parse daemon_flags args [] of
        Inl err \<Rightarrow> Exit 2
      | Inr (vals, rest) \<Rightarrow>
          (case Default getenv of
             Inl err \<Rightarrow> Exit 1
           | Inr cfg \<Rightarrow>
               Continue
                 (if string_of vals ''socket'' \<noteq> [] then cfg\<lparr>cf_SocketPath := string_of vals ''socket''\<rparr> else cfg,
                  \<not> bool_of vals ''no-janitor'')))"

text \<open>
  A daemon process: about to probe the socket, to take the lock, to run the server, serving,
  or done with an exit code but still holding the lock.
\<close>

datatype daemon_phase = Probing | Locking | Starting | Serving | Stopped int | Exited int | Crashed

record Proc =
  pr_cfg :: Config
  pr_phase :: daemon_phase
  pr_info :: Info

record World =
  wo_os :: OS
  wo_procs :: "pid \<rightharpoonup> Proc"

definition holding :: "daemon_phase \<Rightarrow> bool" where
  "holding ph \<longleftrightarrow> (case ph of Starting \<Rightarrow> True | Serving \<Rightarrow> True | Stopped c \<Rightarrow> True | _ \<Rightarrow> False)"

definition running :: "daemon_phase \<Rightarrow> bool" where
  "running ph \<longleftrightarrow> (case ph of Exited c \<Rightarrow> False | Crashed \<Rightarrow> False | _ \<Rightarrow> True)"

definition set_proc :: "pid \<Rightarrow> Proc \<Rightarrow> daemon_phase \<Rightarrow> OS \<Rightarrow> World \<Rightarrow> World" where
  "set_proc pid pr ph w s = s\<lparr>wo_os := w, wo_procs := (wo_procs s)(pid \<mapsto> pr\<lparr>pr_phase := ph\<rparr>)\<rparr>"

text \<open>A dial succeeds only if a listener is behind the path; even then it may fail or time out.\<close>

definition probe_ok :: "OS \<Rightarrow> string \<Rightarrow> Dial \<Rightarrow> bool" where
  "probe_ok w path probe \<longleftrightarrow> (di_dialed probe \<longrightarrow> reachable w path)"

datatype world_label = W_Start pid | W_Probe pid | W_Lock pid | W_Run pid | W_Stop pid | W_Unlock pid | W_Crash pid

inductive world_step :: "(Config \<Rightarrow> bool) \<Rightarrow> World \<Rightarrow> world_label \<Rightarrow> World \<Rightarrow> bool" for allowed where
  start: "wo_procs s pid = None \<Longrightarrow> daemon_config getenv args = Continue (cfg, janitor) \<Longrightarrow> allowed cfg \<Longrightarrow>
    world_step allowed s (W_Start pid) (set_proc pid \<lparr>pr_cfg = cfg, pr_phase = Probing, pr_info = i\<rparr> Probing (wo_os s) s)"
| probe: "wo_procs s pid = Some pr \<Longrightarrow> pr_phase pr = Probing \<Longrightarrow> probe_ok (wo_os s) (cf_SocketPath (pr_cfg pr)) d \<Longrightarrow>
    world_step allowed s (W_Probe pid) (set_proc pid pr (if DaemonAlive d then Exited 0 else Locking) (wo_os s) s)"
| lock: "wo_procs s pid = Some pr \<Longrightarrow> pr_phase pr = Locking \<Longrightarrow>
    AcquireLock fls pid (cf_LockPath (pr_cfg pr)) (wo_os s) = (r, w) \<Longrightarrow>
    world_step allowed s (W_Lock pid) (set_proc pid pr (if r = None then Starting else Exited 1) w s)"
| run: "wo_procs s pid = Some pr \<Longrightarrow> pr_phase pr = Starting \<Longrightarrow> probe_ok (wo_os s) (cf_SocketPath (pr_cfg pr)) d \<Longrightarrow>
    run_start fl fi ft d off pid (pr_cfg pr) (pr_info pr) (wo_os s) = (r, w) \<Longrightarrow>
    world_step allowed s (W_Run pid) (set_proc pid pr (if r = None then Serving else Stopped 1) w s)"
| stop: "wo_procs s pid = Some pr \<Longrightarrow> pr_phase pr = Serving \<Longrightarrow> code = 0 \<or> code = 1 \<Longrightarrow>
    world_step allowed s (W_Stop pid) (set_proc pid pr (Stopped code) (teardown ft pid (pr_cfg pr) (wo_os s)) s)"
| unlock: "wo_procs s pid = Some pr \<Longrightarrow> pr_phase pr = Stopped code \<Longrightarrow>
    world_step allowed s (W_Unlock pid) (set_proc pid pr (Exited code) (Unlock (cf_LockPath (pr_cfg pr)) (wo_os s)) s)"
| crash: "wo_procs s pid = Some pr \<Longrightarrow> running (pr_phase pr) \<Longrightarrow>
    world_step allowed s (W_Crash pid) (set_proc pid pr Crashed (reap pid (wo_os s)) s)"

inductive_cases world_stepE: "world_step allowed s l t"

definition fresh_world :: "(string \<rightharpoonup> node) \<Rightarrow> World" where
  "fresh_world files = \<lparr>wo_os = \<lparr>os_files = files, os_locks = (\<lambda>path. None), os_live = {}\<rparr>, wo_procs = (\<lambda>pid. None)\<rparr>"

section \<open>Frames\<close>

lemma bind_locks [simp]: "os_locks (snd (bind_socket fl pid path w)) = os_locks w"
  unfolding bind_socket_def
  by (auto split: prod.split option.split) (metis call_locks(2,7,8) snd_conv)+

lemma listen_locks [simp]: "os_locks (snd (listen fl probe pid path w)) = os_locks w"
proof -
  have "os_locks w1 = os_locks w" if "MkdirAll f p perm w = (r, w1)" for f p perm r w1
    using that call_locks(1) by (metis snd_conv)
  moreover have "os_locks w3 = os_locks w" if "Remove f p w = (r, w3)" for f p r w w3
    using that call_locks(5) by (metis snd_conv)
  ultimately show ?thesis by (auto simp: listen_def Let_def split: prod.split option.split)
qed

lemma teardown_locks [simp]: "os_locks (teardown ft pid cfg w) = os_locks w"
  by (cases ft) (simp add: teardown_def RemoveInfo_def Let_def)

lemma run_start_locks [simp]: "os_locks (snd (run_start fl fi ft probe off pid cfg i w)) = os_locks w"
  unfolding run_start_def
  by (auto split: prod.split option.split) (metis listen_locks WriteInfo_sel(1) snd_conv)+

lemma AcquireLock_locks:
  assumes "AcquireLock fls pid path w = (r, w')"
  shows "os_locks w' = (if r = None then (os_locks w)(path \<mapsto> pid) else os_locks w)"
    and "r = None \<Longrightarrow> os_locks w path = None"
proof -
  obtain f1 f2 f3 where fls: "fls = (f1, f2, f3)" by (cases fls)
  have m: "os_locks w1 = os_locks w" if "MkdirAll f p perm w = (r, w1)" for f p perm r w1
    using that call_locks(1) by (metis snd_conv)
  have o': "os_locks w2 = os_locks w1" if "OpenFile f p perm w1 = (r, w2)" for f p perm r w1 w2
    using that call_locks(6) by (metis snd_conv)
  show "os_locks w' = (if r = None then (os_locks w)(path \<mapsto> pid) else os_locks w)"
    "r = None \<Longrightarrow> os_locks w path = None"
    using assms
    by (auto simp: AcquireLock_def fls Flock_def dest!: m o' split: prod.splits option.splits if_splits)
qed

section \<open>Mutual exclusion\<close>

definition lock_inv :: "World \<Rightarrow> bool" where
  "lock_inv s \<longleftrightarrow> (\<forall>path pid. os_locks (wo_os s) path = Some pid \<longleftrightarrow>
     (\<exists>pr. wo_procs s pid = Some pr \<and> cf_LockPath (pr_cfg pr) = path \<and> holding (pr_phase pr)))"

lemma set_proc_sel [simp]:
  "wo_os (set_proc pid pr ph w s) = w"
  "wo_procs (set_proc pid pr ph w s) = (wo_procs s)(pid \<mapsto> pr\<lparr>pr_phase := ph\<rparr>)"
  by (simp_all add: set_proc_def)

lemma holding_simps [simp]:
  "\<not> holding Probing" "\<not> holding Locking" "holding Starting" "holding Serving" "holding (Stopped c)"
  "\<not> holding (Exited c)" "\<not> holding Crashed"
  by (simp_all add: holding_def)

lemma lock_inv_same:
  assumes "lock_inv s" "os_locks w = os_locks (wo_os s)" "wo_procs s pid = Some pr"
    and "holding ph = holding (pr_phase pr)"
  shows "lock_inv (set_proc pid pr ph w s)"
  using assms by (auto simp: lock_inv_def)

lemma one_holder:
  assumes "lock_inv s" "wo_procs s k = Some q" "wo_procs s pid = Some pr" "cf_LockPath (pr_cfg q) = cf_LockPath (pr_cfg pr)"
    and "holding (pr_phase q)" "holding (pr_phase pr)"
  shows "k = pid"
  using assms unfolding lock_inv_def by (metis option.inject)

lemma lock_inv_release:
  assumes "lock_inv s" "wo_procs s pid = Some pr" "\<not> holding ph"
    and "os_locks w = (\<lambda>path. if os_locks (wo_os s) path = Some pid then None else os_locks (wo_os s) path)"
  shows "lock_inv (set_proc pid pr ph w s)"
  unfolding lock_inv_def
proof (intro allI)
  fix path k
  have "os_locks (wo_os s) path = Some k \<longleftrightarrow>
      (\<exists>q. wo_procs s k = Some q \<and> cf_LockPath (pr_cfg q) = path \<and> holding (pr_phase q))"
    using assms(1) unfolding lock_inv_def by blast
  then show "os_locks (wo_os (set_proc pid pr ph w s)) path = Some k \<longleftrightarrow>
      (\<exists>q. wo_procs (set_proc pid pr ph w s) k = Some q \<and> cf_LockPath (pr_cfg q) = path \<and> holding (pr_phase q))"
    using assms(3,4) by (cases "k = pid") auto
qed

lemma lock_inv_step:
  assumes "lock_inv s" "world_step allowed s l t"
  shows "lock_inv t"
  using assms(2)
proof (cases rule: world_step.cases)
  case (start pid getenv args cfg janitor i)
  with assms(1) show ?thesis by (auto simp: lock_inv_def)
next
  case (probe pid pr d)
  with assms(1) show ?thesis by (auto intro!: lock_inv_same)
next
  case (lock pid pr fls r w)
  show ?thesis
  proof (cases "r = None")
    case True
    then have free: "os_locks (wo_os s) (cf_LockPath (pr_cfg pr)) = None"
      and locks: "os_locks w = (os_locks (wo_os s))(cf_LockPath (pr_cfg pr) \<mapsto> pid)"
      using AcquireLock_locks [OF lock(5)] by simp_all
    have "\<not> holding (pr_phase q)" if "wo_procs s k = Some q" "cf_LockPath (pr_cfg q) = cf_LockPath (pr_cfg pr)" for k q
      using assms(1) free that unfolding lock_inv_def by (metis option.distinct(1))
    with lock locks True assms(1) show ?thesis by (auto simp: lock_inv_def)
  next
    case False
    with lock AcquireLock_locks [OF lock(5)] assms(1) show ?thesis by (auto intro!: lock_inv_same)
  qed
next
  case (run pid pr d fl fi ft off r w)
  then have "os_locks w = os_locks (wo_os s)" using run_start_locks by (metis snd_conv)
  with run assms(1) show ?thesis by (auto intro!: lock_inv_same)
next
  case (stop pid pr code ft)
  with assms(1) show ?thesis by (auto intro!: lock_inv_same)
next
  case (unlock pid pr code)
  have "os_locks (Unlock (cf_LockPath (pr_cfg pr)) (wo_os s)) =
      (\<lambda>path. if os_locks (wo_os s) path = Some pid then None else os_locks (wo_os s) path)"
  proof
    fix path
    have "os_locks (wo_os s) path = Some pid \<longleftrightarrow> path = cf_LockPath (pr_cfg pr)"
      using assms(1) unlock unfolding lock_inv_def by (metis holding_simps(5) option.inject)
    then show "os_locks (Unlock (cf_LockPath (pr_cfg pr)) (wo_os s)) path =
        (if os_locks (wo_os s) path = Some pid then None else os_locks (wo_os s) path)"
      by (auto simp: Unlock_def)
  qed
  with unlock show ?thesis by (simp add: lock_inv_release [OF assms(1)])
next
  case (crash pid pr)
  then show ?thesis by (simp add: lock_inv_release [OF assms(1)] reap_def close_listener_def)
qed

interpretation locks: invariant_system "\<lambda>s. \<exists>files. s = fresh_world files" "world_step allowed" lock_inv
proof unfold_locales
  show "lock_inv s" if "\<exists>files. s = fresh_world files" for s
    using that by (auto simp: fresh_world_def lock_inv_def)
qed (rule lock_inv_step)

end
