(* ===== verification/Emit.thy ===== *)
theory Emit
  imports Startup
begin

text \<open>
  The one-shot client that Claude Code's hooks run (\<open>daemon/cmd/waiting-room/emit.go\<close>):
  its arguments, the hook's payload, finding the socket, and sending with an acknowledgement.
\<close>

section \<open>Arguments\<close>

definition value_flags :: "string set" where "value_flags = {''--reason'', ''--session''}"

text \<open>The loop of \<open>splitEmitArgs\<close>: the arguments left, the event found, the flags so far.\<close>

fun split_loop :: "string list \<Rightarrow> string \<Rightarrow> string list \<Rightarrow> string \<times> string list" where
  "split_loop [] event flagArgs = (event, flagArgs)"
| "split_loop [a] event flagArgs =
     (if HasPrefix a ''-'' then (event, flagArgs @ [a])
      else if event = [] then (a, flagArgs)
      else (event, flagArgs @ [a]))"
| "split_loop (a # b # rest) event flagArgs =
     (if a \<in> value_flags then split_loop rest event (flagArgs @ [a, b])
      else if HasPrefix a ''-'' then split_loop (b # rest) event (flagArgs @ [a])
      else if event = [] then split_loop (b # rest) a flagArgs
      else split_loop (b # rest) event (flagArgs @ [a]))"

definition splitEmitArgs :: "string list \<Rightarrow> string \<times> string list" where
  "splitEmitArgs args = split_loop args [] []"

definition emit_flags :: flag_set where
  "emit_flags = [(''reason'', StringFlag), (''session'', StringFlag), (''strict'', BoolFlag), (''verbose'', BoolFlag)]"

section \<open>The hook's payload\<close>

text \<open>
  \<open>json.Unmarshal\<close> into a \<open>map[string]any\<close> whose error is ignored: a number that does not fit
  is left out of its place (it becomes \<open>nil\<close>) and the rest is kept.
\<close>

fun any_value :: "jval \<Rightarrow> json" where
  "any_value V_Null = JNull"
| "any_value (V_Bool b) = JBool b"
| "any_value (V_Num l) = (if float_overflow l then JNull else JNum l)"
| "any_value (V_Str raw) = (case unquote raw of None \<Rightarrow> JNull | Some s \<Rightarrow> JStr s)"
| "any_value (V_Arr vs) = JArr (map any_value vs)"
| "any_value (V_Obj ms) =
     JObj (fold (\<lambda>(raw, j). AList.update (case unquote raw of None \<Rightarrow> [] | Some k \<Rightarrow> k) j)
       (map (\<lambda>(raw, v). (raw, any_value v)) ms) [])"

definition read_payload :: "string option \<Rightarrow> (string, json) gomap" where
  "read_payload stdin =
     (case stdin of
        None \<Rightarrow> []
      | Some raw \<Rightarrow>
          if raw = [] then []
          else
            (case parse_text raw of
               Some (V_Obj ms) \<Rightarrow> (case any_value (V_Obj ms) of JObj m \<Rightarrow> m | _ \<Rightarrow> [])
             | _ \<Rightarrow> []))"

text \<open>\<open>payload[key].(string)\<close>, the empty string if that fails.\<close>

definition text_of :: "(string, json) gomap \<Rightarrow> string \<Rightarrow> string" where
  "text_of payload key = (case map_of payload key of Some (JStr s) \<Rightarrow> s | _ \<Rightarrow> [])"

section \<open>The message\<close>

text \<open>The socket in \<open>$TMUX\<close>: what precedes its first comma, if that is not at the start.\<close>

definition tmux_socket :: "string \<Rightarrow> string" where
  "tmux_socket t = (case IndexByte t (CHR '','') of None \<Rightarrow> [] | Some i \<Rightarrow> if 0 < i then take i t else [])"

definition put_text :: "string \<Rightarrow> string \<Rightarrow> (string, json) gomap \<Rightarrow> (string, json) gomap" where
  "put_text key s m = (if s = [] then m else AList.update key (JStr s) m)"

definition emit_meta :: "(string, json) gomap \<Rightarrow> string \<Rightarrow> (string, json) gomap" where
  "emit_meta payload reason =
     put_text ''reason'' reason
       (put_text ''cwd'' (text_of payload ''cwd'') (put_text ''hook'' (text_of payload ''hook_event_name'') []))"

definition emit_message ::
  "(string \<Rightarrow> string) \<Rightarrow> Time \<Rightarrow> Time \<Rightarrow> string \<Rightarrow> string \<Rightarrow> (string, json) gomap \<Rightarrow> EmitMessage" where
  "emit_message getenv now1 now2 event sid meta =
     \<lparr>e_V = Version, e_Type = ''emit'', em_Event = event, em_SessionID = sid, em_Seq = now1, em_TS = now2,
      em_TmuxPane = getenv ''TMUX_PANE'', em_TmuxSession = [],
      em_TmuxSocket = (if getenv ''TMUX'' = [] then [] else tmux_socket (getenv ''TMUX'')), em_Meta = Some meta\<rparr>"

section \<open>Finding the daemon and sending\<close>

definition discoverSocket :: "(string \<Rightarrow> string) \<Rightarrow> fault \<Rightarrow> OS \<Rightarrow> Dial \<Rightarrow> string" where
  "discoverSocket getenv fl w probe =
     (if getenv ''WAITING_ROOM_SOCKET'' \<noteq> [] then getenv ''WAITING_ROOM_SOCKET''
      else
        (case Default getenv of
           Inl err \<Rightarrow> []
         | Inr cfg \<Rightarrow>
             (case ReadInfo fl (cf_InfoPath cfg) w of
                Inl err \<Rightarrow> cf_SocketPath cfg
              | Inr i \<Rightarrow>
                  if in_SocketPath i \<noteq> [] then
                    (if DaemonAlive probe then in_SocketPath i else cf_SocketPath cfg)
                  else cf_SocketPath cfg)))"

text \<open>The loop of \<open>sendAndAck\<close> over the lines that arrive before the deadline or the end.\<close>

fun await_ack :: "string list \<Rightarrow> bool" where
  "await_ack [] = False"
| "await_ack (raw # ls) =
     (case Decode raw of
        Inl err \<Rightarrow> await_ack ls
      | Inr (M_Ack ack) \<Rightarrow> ak_Ok ack
      | Inr m \<Rightarrow> await_ack ls)"

definition sendAndAck :: "Dial \<Rightarrow> EmitMessage \<Rightarrow> bool" where
  "sendAndAck d msg =
     (case Encode 0 (M_Emit msg) of
        None \<Rightarrow> False
      | Some line \<Rightarrow> if \<not> di_wrote d then False else await_ack (read_lines (di_reply d)))"

fun send_attempts :: "nat \<Rightarrow> nat \<Rightarrow> (nat \<Rightarrow> Dial) \<Rightarrow> EmitMessage \<Rightarrow> bool" where
  "send_attempts 0 attempt dial msg = False"
| "send_attempts (Suc n) attempt dial msg =
     (if \<not> di_dialed (dial attempt) then send_attempts n (Suc attempt) dial msg
      else if sendAndAck (dial attempt) msg then True
      else send_attempts n (Suc attempt) dial msg)"

definition sendEmit :: "string \<Rightarrow> (nat \<Rightarrow> Dial) \<Rightarrow> EmitMessage \<Rightarrow> bool" where
  "sendEmit path dial msg = (if path = [] then False else send_attempts 2 0 dial msg)"

section \<open>The command\<close>

text \<open>
  What the command meets: the environment variables, its standard input (\<open>None\<close> for a terminal
  or an unreadable one), two readings of the clock, the files, and the network.
\<close>

record EmitWorld =
  ew_getenv :: "string \<Rightarrow> string"
  ew_stdin :: "string option"
  ew_now1 :: Time
  ew_now2 :: Time
  ew_fault :: fault
  ew_os :: OS
  ew_probe :: Dial
  ew_dial :: "nat \<Rightarrow> Dial"

text \<open>The exit code, and the path and message that were given to \<open>sendEmit\<close>, if it was called.\<close>

definition runEmit :: "string list \<Rightarrow> EmitWorld \<Rightarrow> int \<times> (string \<times> EmitMessage) option" where
  "runEmit args e =
     (let (event, flagArgs) = splitEmitArgs args in
      case Parse emit_flags flagArgs [] of
        Inl err \<Rightarrow> (2, None)
      | Inr (vals, rest) \<Rightarrow>
          if event = [] then (2, None)
          else if \<not> snd (StateForEvent event) then (2, None)
          else
            let payload = read_payload (ew_stdin e);
                sid = (if string_of vals ''session'' = [] then text_of payload ''session_id'' else string_of vals ''session'')
            in if sid = [] then (if bool_of vals ''strict'' then (1, None) else (0, None))
               else
                 let msg = emit_message (ew_getenv e) (ew_now1 e) (ew_now2 e) event sid
                             (emit_meta payload (string_of vals ''reason''));
                     path = discoverSocket (ew_getenv e) (ew_fault e) (ew_os e) (ew_probe e)
                 in if \<not> sendEmit path (ew_dial e) msg
                    then (if bool_of vals ''strict'' then (1, Some (path, msg)) else (0, Some (path, msg)))
                    else (0, Some (path, msg)))"

end
