(* ===== verification/Exchange.thy ===== *)
theory Exchange
  imports ServerProps Emit
begin

text \<open>
  One request over a fresh connection: what the client reads back is the greeting and the answer.
\<close>

text \<open>A connection that was just accepted and whose kernel vouches for the daemon's uid; all writes succeed.\<close>

definition fresh_link :: "int \<Rightarrow> sink \<Rightarrow> credentials option \<Rightarrow> 'h Server \<Rightarrow> bool" where
  "fresh_link getuid sk answer s \<longleftrightarrow> sk < length (sv_links s) \<and> li_conn (sv_links s ! sk) = newConn \<and>
     vouched answer = Some (word_of_int getuid) \<and> valid_utf8 (op_Version (sv_opts s))"

definition all_written :: "'e Env \<Rightarrow> bool" where
  "all_written en \<longleftrightarrow> (\<forall>n. en_write en n = Wrote)"

definition bytes_to :: "sink \<Rightarrow> 'h Server \<Rightarrow> string" where
  "bytes_to sk s = cn_out (li_conn (sv_links s ! sk))"

lemma greeting:
  assumes "fresh_link getuid sk answer s" "all_written en"
  obtains l where "Encode (en_zone en) (Hello (op_Version (sv_opts s))) = Some l"
    "sv_links (serve_auth getuid en sk answer s) ! sk =
       \<lparr>li_conn = newConn\<lparr>cn_out := l\<rparr>, li_phase = Reading, li_ok = True\<rparr>"
proof -
  obtain l where "Encode (en_zone en) (Hello (op_Version (sv_opts s))) = Some l"
    by (simp add: Encode_def message_members_def Hello_def)
  with assms that show thesis
    by (cases "sv_links s ! sk")
       (simp add: serve_auth_def send_to_def modify_link_nth peer_accepted_iff fresh_link_def all_written_def conn_Send_def newConn_def)
qed

lemma Hello_transparent: "valid_utf8 v \<Longrightarrow> transparent (Hello v)"
  by (simp add: transparent_def well_tagged_def envelope_def type_tag_def Env_def Envelope.defs writable_def
      meta_of_def content_ok_def Hello_def)

lemma Ack_transparent: "valid_utf8 err \<Longrightarrow> transparent (Ack ok err)"
  by (simp add: transparent_def well_tagged_def envelope_def type_tag_def Env_def Envelope.defs writable_def
      meta_of_def content_ok_def Ack_def)

definition exchange :: "int \<Rightarrow> 'e Env \<Rightarrow> Runtime Env \<Rightarrow> sink \<Rightarrow> credentials option \<Rightarrow> string \<Rightarrow> Core Server \<Rightarrow> Core Server" where
  "exchange getuid en en' sk answer line s = serve_line core_handler en' sk line (serve_auth getuid en sk answer s)"

lemma exchange_reply:
  assumes "fresh_link getuid sk answer s" "all_written en" "all_written en'"
    and "Encode off msg = Some line" "transparent msg"
    and "new_sends (sv_handler s) (Handle (en_rt en') sk msg (sv_handler s)) = [(sk, reply)]"
    and "Encode (en_zone en') reply = Some bytes" "transparent reply"
  shows "sv_handler (exchange getuid en en' sk answer line s) = Handle (en_rt en') sk msg (sv_handler s)"
    and "map Decode (read_lines (bytes_to sk (exchange getuid en en' sk answer line s))) =
      [Inr (Hello (op_Version (sv_opts s))), Inr reply]"
proof -
  let ?a = "serve_auth getuid en sk answer s" and ?c = "Handle (en_rt en') sk msg (sv_handler s)"
  let ?t = "exchange getuid en en' sk answer line s"
  have sk: "sk < length (sv_links s)" and utf: "valid_utf8 (op_Version (sv_opts s))" using assms(1) by (simp_all add: fresh_link_def)
  obtain hello where hello: "Encode (en_zone en) (Hello (op_Version (sv_opts s))) = Some hello"
    and link: "sv_links ?a ! sk = \<lparr>li_conn = newConn\<lparr>cn_out := hello\<rparr>, li_phase = Reading, li_ok = True\<rparr>"
    using greeting [OF assms(1,2)] .
  have auth: "sv_handler ?a = sv_handler s" "length (sv_links ?a) = length (sv_links s)" by (simp_all add: serve_auth_def)
  have dec: "Decode line = Inr msg" using assms(4,5) by (rule Decode_Encode)
  have blank: "TrimSpace line \<noteq> []" using assms(4,5) by (simp add: line_not_blank transparent_def)
  have t: "?t = send_to (en_zone en') Wrote sk reply (?a\<lparr>sv_handler := ?c\<rparr>)"
    using dec blank assms(3,6) by (simp add: exchange_def serve_line_def call_def core_handler_def auth all_written_def)
  then show "sv_handler ?t = ?c" by (simp add: auth)
  have out: "bytes_to sk ?t = hello @ bytes"
    using sk unfolding t bytes_to_def by (simp add: send_to_def modify_link_nth auth link conn_Send_def assms(7) newConn_def)
  have trans: "transparent (Hello (op_Version (sv_opts s)))" using utf by (simp add: Hello_transparent)
  then have lines: "\<exists>body. hello = body @ [newline] \<and> newline \<notin> set body" "\<exists>body. bytes = body @ [newline] \<and> newline \<notin> set body"
    using Encode_line [OF hello] Encode_line [OF assms(7)] assms(8) unfolding transparent_def by metis+
  have "read_lines (concat [hello, bytes]) = [hello, bytes]"
    by (rule read_lines_concat) (use lines in simp)
  then show "map Decode (read_lines (bytes_to sk ?t)) = [Inr (Hello (op_Version (sv_opts s))), Inr reply]"
    using Decode_Encode [OF hello trans] Decode_Encode [OF assms(7,8)] by (simp add: out)
qed

text \<open>What the clients' loops make of decoded lines.\<close>

lemma map_Decode_two:
  "map Decode ls = [Inr a, Inr b] \<Longrightarrow> \<exists>x y. ls = [x, y] \<and> Decode x = Inr a \<and> Decode y = Inr b"
  by (auto simp: map_eq_Cons_conv)

lemma emit_answer:
  assumes "known_event (em_Event msg)"
  shows "Handle rt sk (M_Emit msg) c = handleEmit rt sk msg c"
    and "new_sends c (handleEmit rt sk msg c) = [(sk, Ack True [])]"
  using assms by (simp_all add: Handle_def new_sends_def handleEmit_eq)

lemma working_emit_ok: "transparent (M_Emit working_emit)" "known_event (em_Event working_emit)"
  by (simp_all add: transparent_def well_tagged_def envelope_def type_tag_def Env_def Envelope.defs writable_def
      meta_of_def content_ok_def working_emit_def sample_emit_def int64_def EventAgentWorking_def Version_def
      StateForEvent_def event_defs)

lemma sample_link: "fresh_link 1000 0 own_peer (accept sample_server)" "all_written (sample_env n)"
  by (simp_all add: fresh_link_def sample_server_def accept_def New_def vouched_def all_written_def sample_env_def)

end
