(* ===== verification/StartupFacts.thy ===== *)
theory StartupFacts
  imports Startup
begin

text \<open>
  What the calls of a starting and stopping daemon do to the files, and the invariant of several
  daemons: a serving daemon's socket and info file stay as it made them.
\<close>

section \<open>Files\<close>

lemma make_dirs_ok: "make_dirs perm ps w = (None, w') \<Longrightarrow> p \<in> set ps \<Longrightarrow> \<exists>m. os_files w' p = Some (N_Dir m)"
proof (induction perm ps w arbitrary: w' rule: make_dirs.induct)
  case (2 perm a ps w)
  have keep: "\<exists>m. os_files w' a = Some (N_Dir m)" if "make_dirs perm ps w1 = (None, w')" "os_files w1 a = Some (N_Dir k)" for w1 k
    using make_dirs_files [of perm ps w1 a] that by auto
  show ?case
  proof (cases "os_files w a")
    case None
    with 2 keep show ?thesis by (auto simp: fun_upd_def)
  next
    case (Some x)
    with 2 keep show ?thesis by (cases x) auto
  qed
qed simp

lemma MkdirAll_ok: "MkdirAll fl path perm w = (None, w') \<Longrightarrow> \<exists>m. os_files w' path = Some (N_Dir m)"
  by (auto simp: MkdirAll_def ancestors_def intro: make_dirs_ok split: if_splits)

definition not_dir :: "node \<Rightarrow> bool" where
  "not_dir x \<longleftrightarrow> (case x of N_Dir m \<Rightarrow> False | _ \<Rightarrow> True)"

lemma bind_files: "bind_socket fl pid path w = (r, w') \<Longrightarrow> q \<noteq> path \<Longrightarrow> os_files w' q = os_files w q"
  using call_files(1,6) [of q path]
  by (auto simp: bind_socket_def call_files(9) split: prod.splits option.splits) (metis snd_conv)+

lemma listen_files:
  assumes "listen fl probe pid path w = (r, w')" "q \<noteq> path" "os_files w q = Some x" "not_dir x"
  shows "os_files w' q = Some x"
proof -
  obtain r1 w1 where m: "MkdirAll (fl 0) (path_Dir path) 448 w = (r1, w1)" by fastforce
  then have w1: "os_files w1 q = Some x" using MkdirAll_files [of "fl 0" "path_Dir path" 448 w q] assms(3) by simp
  define w2 where "w2 = snd (Chmod (fl 1) (path_Dir path) 448 w1)"
  have w2: "os_files w2 q = Some x" if "r1 = None"
  proof -
    have "q \<noteq> path_Dir path" using MkdirAll_ok [of "fl 0" "path_Dir path" 448 w w1] m that w1 assms(4) by (auto simp: not_dir_def)
    with w1 show ?thesis by (simp add: w2_def call_files)
  qed
  have rem: "os_files w3 q = os_files w2 q" if "Remove (fl 2) path w2 = (r3, w3)" for r3 w3
    using call_files(4) [OF assms(2), of "fl 2" w2] that by simp
  show ?thesis
  proof (cases r1)
    case (Some err)
    with assms(1) m w1 show ?thesis by (simp add: listen_def)
  next
    case None
    note q2 = w2 [OF this]
    obtain r3 w3 where r3: "Remove (fl 2) path w2 = (r3, w3)" by fastforce
    have q3: "os_files w3 q = Some x" using rem [OF r3] q2 by simp
    have "w' = w2 \<or> w' = w3 \<or> bind_socket fl pid path w3 = (r, w')"
      using assms(1) m None r3
      by (simp add: listen_def Let_def w2_def [symmetric] del: One_nat_def split: option.splits if_splits)
    then show ?thesis using q2 q3 bind_files [of fl pid path w3 r w' q] assms(2) by auto
  qed
qed

lemma bind_ok: "bind_socket fl pid path w = (None, w') \<Longrightarrow> os_files w' path = Some (N_Sock 384 pid) \<and> os_live w' = insert pid (os_live w)"
  by (auto simp: bind_socket_def Listen_def Chmod_def split: prod.splits option.splits if_splits)

lemma bind_failed: "bind_socket fl pid path w = (Some err, w') \<Longrightarrow> pid \<notin> os_live w \<Longrightarrow> os_live w' = os_live w"
  by (auto simp: bind_socket_def Listen_def Chmod_def close_listener_def split: prod.splits option.splits if_splits)

lemma listen_live:
  assumes "listen fl probe pid path w = (r, w')"
  shows "r = None \<Longrightarrow> os_files w' path = Some (N_Sock 384 pid) \<and> os_live w' = insert pid (os_live w)"
    and "r \<noteq> None \<Longrightarrow> pid \<notin> os_live w \<Longrightarrow> os_live w' = os_live w"
proof -
  have m: "os_live w1 = os_live w" if "MkdirAll f p perm w = (r1, w1)" for f p perm r1 w1
    using that call_live(1) by (metis snd_conv)
  have d: "os_live w3 = os_live w2" if "Remove f p w2 = (r3, w3)" for f p r3 w2 w3
    using that call_live(5) by (metis snd_conv)
  show "r = None \<Longrightarrow> os_files w' path = Some (N_Sock 384 pid) \<and> os_live w' = insert pid (os_live w)"
    "r \<noteq> None \<Longrightarrow> pid \<notin> os_live w \<Longrightarrow> os_live w' = os_live w"
    using assms
    by (auto simp: listen_def Let_def dest!: m d bind_ok bind_failed split: option.splits prod.splits if_splits)
qed

lemma teardown_files: "q \<noteq> cf_SocketPath cfg \<Longrightarrow> q \<noteq> cf_InfoPath cfg \<Longrightarrow> os_files (teardown ft pid cfg w) q = os_files w q"
  by (cases ft) (simp add: teardown_def RemoveInfo_def Let_def call_files)

lemma teardown_live [simp]: "os_live (teardown ft pid cfg w) = os_live w - {pid}"
  by (cases ft) (simp add: teardown_def RemoveInfo_def Let_def close_listener_def)

lemma AcquireLock_files:
  assumes "AcquireLock fls pid path w = (r, w')" "q \<noteq> path" "os_files w q = Some x"
  shows "os_files w' q = Some x"
proof -
  obtain f1 f2 f3 where fls: "fls = (f1, f2, f3)" by (cases fls)
  have m: "os_files w1 q = Some x" if "MkdirAll f p perm w = (r1, w1)" for f p perm r1 w1
    using that MkdirAll_files [of f p perm w q] assms(3) by simp
  have o': "os_files w2 q = os_files w1 q" if "OpenFile f path perm w1 = (r2, w2)" for f perm r2 w1 w2
    using that call_files(5) [OF assms(2)] by (metis snd_conv)
  have l: "os_files w3 = os_files w2" if "Flock f pid path w2 = (r3, w3)" for f r3 w2 w3
    using that call_files(7) by (metis snd_conv)
  show ?thesis
    using assms(1) by (auto simp: AcquireLock_def fls dest!: m o' l split: prod.splits option.splits)
qed

lemma AcquireLock_live:
  assumes "AcquireLock fls pid path w = (r, w')"
  shows "os_live w' = os_live w"
proof -
  obtain f1 f2 f3 where fls: "fls = (f1, f2, f3)" by (cases fls)
  have m: "os_live w1 = os_live w" if "MkdirAll f p perm w = (r1, w1)" for f p perm r1 w1
    using that call_live(1) by (metis snd_conv)
  have o': "os_live w2 = os_live w1" if "OpenFile f p perm w1 = (r2, w2)" for f p perm r2 w1 w2
    using that call_live(6) by (metis snd_conv)
  have l: "os_live w3 = os_live w2" if "Flock f k p w2 = (r3, w3)" for f k p r3 w2 w3
    using that call_live(7) by (metis snd_conv)
  show ?thesis using assms by (auto simp: AcquireLock_def fls dest!: m o' l split: prod.splits option.splits)
qed

section \<open>A serving daemon\<close>

text \<open>
  The paths a daemon of a configuration writes to; configurations with different locks share
  none of them, those with the same lock are the same.
\<close>

definition touched :: "Config \<Rightarrow> string set" where
  "touched cfg = {cf_SocketPath cfg, cf_InfoPath cfg, tmp_of (cf_InfoPath cfg), cf_LockPath cfg}"

definition separate :: "(Config \<Rightarrow> bool) \<Rightarrow> bool" where
  "separate allowed \<longleftrightarrow>
     (\<forall>a b. allowed a \<longrightarrow> allowed b \<longrightarrow> cf_LockPath a \<noteq> cf_LockPath b \<longrightarrow> touched a \<inter> touched b = {}) \<and>
     (\<forall>a b. allowed a \<longrightarrow> allowed b \<longrightarrow> cf_LockPath a = cf_LockPath b \<longrightarrow> a = b) \<and>
     (\<forall>a. allowed a \<longrightarrow> CHR ''/'' \<in> set (cf_InfoPath a) \<and>
        distinct [cf_SocketPath a, cf_InfoPath a, tmp_of (cf_InfoPath a), cf_LockPath a])"

text \<open>What a serving daemon relies on: its socket, and its info file.\<close>

definition has_socket :: "OS \<Rightarrow> pid \<Rightarrow> Config \<Rightarrow> bool" where
  "has_socket w pid cfg \<longleftrightarrow> os_files w (cf_SocketPath cfg) = Some (N_Sock 384 pid) \<and> pid \<in> os_live w"

definition has_info :: "OS \<Rightarrow> Config \<Rightarrow> Info \<Rightarrow> bool" where
  "has_info w cfg i \<longleftrightarrow> (\<exists>m off raw. marshal_info off i = Some raw \<and> os_files w (cf_InfoPath cfg) = Some (N_File m raw))"

lemma run_start_files:
  assumes "run_start fl fi ft d off pid cfg i w = (r, w')" "q \<notin> {cf_SocketPath cfg, cf_InfoPath cfg, tmp_of (cf_InfoPath cfg)}"
    and "os_files w q = Some x" "not_dir x"
  shows "os_files w' q = Some x"
proof -
  obtain r1 w1 where l: "listen fl d pid (cf_SocketPath cfg) w = (r1, w1)" by fastforce
  then have w1: "os_files w1 q = Some x" using listen_files assms(2-4) by blast
  obtain r2 w2 where i: "WriteInfo fi off (cf_InfoPath cfg) i w1 = (r2, w2)" by fastforce
  have w2: "os_files w2 q = Some x" using WriteInfo_files [of q "cf_InfoPath cfg" w1 fi off i] assms(2) w1 i by simp
  have "w' = w1 \<or> w' = w2 \<or> w' = teardown ft pid cfg w2"
    using assms(1) l i by (auto simp: run_start_def split: option.splits if_splits)
  then show ?thesis using w1 w2 assms(2) by (auto simp: teardown_files)
qed

lemma run_start_ok:
  assumes "run_start fl fi ft d off pid cfg i w = (None, w')" "CHR ''/'' \<in> set (cf_InfoPath cfg)"
    and "cf_SocketPath cfg \<notin> {cf_InfoPath cfg, tmp_of (cf_InfoPath cfg)}"
  shows "has_socket w' pid cfg" "has_info w' cfg i" "os_live w' = insert pid (os_live w)"
proof -
  have ne: "cf_InfoPath cfg \<noteq> []" using assms(2) by auto
  obtain w1 where l: "listen fl d pid (cf_SocketPath cfg) w = (None, w1)"
    and i: "WriteInfo fi off (cf_InfoPath cfg) i w1 = (None, w')"
    using assms(1) ne by (auto simp: run_start_def split: prod.splits option.splits)
  have w1: "os_files w1 (cf_SocketPath cfg) = Some (N_Sock 384 pid)" "os_live w1 = insert pid (os_live w)"
    using listen_live(1) [OF l] by simp_all
  have "os_files w' (cf_SocketPath cfg) = Some (N_Sock 384 pid)"
    using WriteInfo_files [of "cf_SocketPath cfg" "cf_InfoPath cfg" w1 fi off i] assms(3) w1(1) i by simp
  moreover show "os_live w' = insert pid (os_live w)"
    using WriteInfo_sel(2) [of fi off "cf_InfoPath cfg" i w1] w1(2) i by simp
  ultimately show "has_socket w' pid cfg" by (simp add: has_socket_def)
  show "has_info w' cfg i" using WriteInfo_atomic(2) [OF assms(2) i] by (auto simp: has_info_def)
qed

lemma run_start_failed:
  assumes "run_start fl fi ft d off pid cfg i w = (Some err, w')" "pid \<notin> os_live w"
  shows "os_live w' = os_live w"
proof -
  obtain r1 w1 where l: "listen fl d pid (cf_SocketPath cfg) w = (r1, w1)" by fastforce
  show ?thesis
  proof (cases r1)
    case (Some e)
    with assms l listen_live(2) [OF l] show ?thesis by (simp add: run_start_def)
  next
    case None
    with l have w1: "os_live w1 = insert pid (os_live w)" using listen_live(1) by blast
    obtain r2 w2 where i: "WriteInfo fi off (cf_InfoPath cfg) i w1 = (r2, w2)" by fastforce
    then have "os_live w2 = insert pid (os_live w)" using WriteInfo_sel(2) w1 by (metis snd_conv)
    moreover have "w' = teardown ft pid cfg w2"
      using assms(1) l None i by (auto simp: run_start_def split: option.splits if_splits)
    ultimately show ?thesis using assms(2) by simp
  qed
qed

definition world_inv :: "(Config \<Rightarrow> bool) \<Rightarrow> World \<Rightarrow> bool" where
  "world_inv allowed s \<longleftrightarrow> lock_inv s \<and>
     (\<forall>pid pr. wo_procs s pid = Some pr \<longrightarrow> allowed (pr_cfg pr)) \<and>
     (\<forall>pid. pid \<in> os_live (wo_os s) \<longleftrightarrow> (\<exists>pr. wo_procs s pid = Some pr \<and> pr_phase pr = Serving)) \<and>
     (\<forall>pid pr. wo_procs s pid = Some pr \<longrightarrow> pr_phase pr = Serving \<longrightarrow>
        has_socket (wo_os s) pid (pr_cfg pr) \<and> has_info (wo_os s) (pr_cfg pr) (pr_info pr))"

lemma world_invI:
  assumes "world_inv allowed s" "wo_procs s pid = Some pr \<or> allowed (pr_cfg pr)" "lock_inv (set_proc pid pr ph w s)"
    and "os_live w = (if ph = Serving then insert pid (os_live (wo_os s)) else os_live (wo_os s) - {pid})"
    and "ph = Serving \<Longrightarrow> has_socket w pid (pr_cfg pr) \<and> has_info w (pr_cfg pr) (pr_info pr)"
    and "\<And>k q f x. k \<noteq> pid \<Longrightarrow> wo_procs s k = Some q \<Longrightarrow> pr_phase q = Serving \<Longrightarrow>
      f \<in> {cf_SocketPath (pr_cfg q), cf_InfoPath (pr_cfg q)} \<Longrightarrow> os_files (wo_os s) f = Some x \<Longrightarrow> not_dir x \<Longrightarrow>
      os_files w f = Some x"
  shows "world_inv allowed (set_proc pid pr ph w s)"
proof -
  note inv = assms(1) [unfolded world_inv_def]
  have "allowed (pr_cfg pr)" using inv assms(2) by blast
  then have "allowed (pr_cfg q)" if "wo_procs (set_proc pid pr ph w s) k = Some q" for k q
    using inv that by (auto split: if_splits)
  moreover have "k \<in> os_live (wo_os (set_proc pid pr ph w s)) \<longleftrightarrow>
      (\<exists>q. wo_procs (set_proc pid pr ph w s) k = Some q \<and> pr_phase q = Serving)" for k
    using inv assms(4) by (cases "k = pid") auto
  moreover have "has_socket w k (pr_cfg q) \<and> has_info w (pr_cfg q) (pr_info q)"
    if q: "wo_procs (set_proc pid pr ph w s) k = Some q" "pr_phase q = Serving" for k q
  proof (cases "k = pid")
    case True
    with q assms(5) show ?thesis by auto
  next
    case False
    with q have old: "wo_procs s k = Some q" by simp
    have "has_socket (wo_os s) k (pr_cfg q)" "has_info (wo_os s) (pr_cfg q) (pr_info q)" using inv old q(2) by blast+
    moreover have "k \<in> os_live w" using assms(4) inv old q(2) False by auto
    ultimately show ?thesis
      using assms(6) [OF False old q(2)] by (auto simp: has_socket_def has_info_def not_dir_def)
  qed
  ultimately show ?thesis using assms(3) unfolding world_inv_def by simp
qed

lemma separate_paths:
  assumes "separate allowed" "allowed a" "allowed b" "f \<in> {cf_SocketPath a, cf_InfoPath a}"
  shows "f \<noteq> cf_LockPath b" and "cf_LockPath a \<noteq> cf_LockPath b \<Longrightarrow> f \<notin> touched b"
proof -
  show apart: "f \<notin> touched b" if "cf_LockPath a \<noteq> cf_LockPath b"
    using assms that unfolding separate_def touched_def by blast
  show "f \<noteq> cf_LockPath b"
  proof (cases "cf_LockPath a = cf_LockPath b")
    case True
    then have "a = b" using assms(1-3) unfolding separate_def by blast
    then show ?thesis using assms(1,3,4) unfolding separate_def by auto
  next
    case False
    then show ?thesis using apart by (auto simp: touched_def)
  qed
qed

lemma world_inv_step:
  assumes sep: "separate allowed" and inv: "world_inv allowed s" and step: "world_step allowed s l t"
  shows "world_inv allowed t"
proof -
  have lock: "lock_inv t" using lock_inv_step [OF _ step] inv by (simp add: world_inv_def)
  have li: "lock_inv s" and cfg: "\<And>k q. wo_procs s k = Some q \<Longrightarrow> allowed (pr_cfg q)"
    and live: "\<And>k. k \<in> os_live (wo_os s) \<longleftrightarrow> (\<exists>q. wo_procs s k = Some q \<and> pr_phase q = Serving)"
    using inv by (simp_all add: world_inv_def)
  have apart: "f \<notin> touched (pr_cfg pr)"
    if "k \<noteq> pid" "wo_procs s k = Some q" "pr_phase q = Serving" "f \<in> {cf_SocketPath (pr_cfg q), cf_InfoPath (pr_cfg q)}"
      "wo_procs s pid = Some pr" "holding (pr_phase pr)" for k pid q pr f
  proof -
    have "cf_LockPath (pr_cfg q) \<noteq> cf_LockPath (pr_cfg pr)"
      using one_holder [OF li that(2,5)] that(1,3,6) by auto
    then show ?thesis using separate_paths(2) [OF sep cfg [OF that(2)] cfg [OF that(5)] that(4)] by blast
  qed
  show ?thesis
    using step
  proof (cases rule: world_step.cases)
    case (start pid getenv args c janitor i)
    have "pid \<notin> os_live (wo_os s)" using live start by simp
    with start lock show ?thesis unfolding start(2) by (intro world_invI [OF inv]) simp_all
  next
    case (probe pid pr d)
    have "pid \<notin> os_live (wo_os s)" using live probe by simp
    with probe lock show ?thesis unfolding probe(2) by (intro world_invI [OF inv]) (simp_all split: if_splits)
  next
    case (lock pid pr fls r w)
    have w: "os_live w = os_live (wo_os s)" using AcquireLock_live [OF lock(5)] .
    have "pid \<notin> os_live (wo_os s)" using live lock by simp
    moreover have "os_files w f = Some x"
      if "k \<noteq> pid" "wo_procs s k = Some q" "f \<in> {cf_SocketPath (pr_cfg q), cf_InfoPath (pr_cfg q)}"
        "os_files (wo_os s) f = Some x" for k q f x
      using AcquireLock_files [OF lock(5) separate_paths(1) [OF sep cfg [OF that(2)] cfg [OF lock(3)] that(3)] that(4)] .
    ultimately show ?thesis using lock w \<open>lock_inv t\<close> unfolding lock(2)
      by (intro world_invI [OF inv]) (simp_all split: if_splits)
  next
    case (run pid pr d fl fi ft off r w)
    have pid: "pid \<notin> os_live (wo_os s)" using live run by simp
    have ok: "CHR ''/'' \<in> set (cf_InfoPath (pr_cfg pr))"
      "cf_SocketPath (pr_cfg pr) \<notin> {cf_InfoPath (pr_cfg pr), tmp_of (cf_InfoPath (pr_cfg pr))}"
      using sep cfg [OF run(3)] unfolding separate_def by auto
    have "os_files w f = Some x"
      if "k \<noteq> pid" "wo_procs s k = Some q" "pr_phase q = Serving" "f \<in> {cf_SocketPath (pr_cfg q), cf_InfoPath (pr_cfg q)}"
        "os_files (wo_os s) f = Some x" "not_dir x" for k q f x
      using run_start_files [OF run(6) _ that(5,6)] apart [OF that(1-4) run(3)] run(4) by (simp add: touched_def)
    note others = this
    show ?thesis
    proof (cases r)
      case None
      note started = run_start_ok [OF run(6) [unfolded None] ok]
      show ?thesis
        unfolding run(2) using None run(3) started \<open>lock_inv t\<close> [unfolded run(2)] others
        by (intro world_invI [OF inv]) simp_all
    next
      case (Some err)
      note failed = run_start_failed [OF run(6) [unfolded Some] pid]
      show ?thesis
        unfolding run(2) using Some run(3) failed pid \<open>lock_inv t\<close> [unfolded run(2)] others
        by (intro world_invI [OF inv]) simp_all
    qed
  next
    case (stop pid pr code ft)
    have "os_files (teardown ft pid (pr_cfg pr) (wo_os s)) f = Some x"
      if "k \<noteq> pid" "wo_procs s k = Some q" "pr_phase q = Serving" "f \<in> {cf_SocketPath (pr_cfg q), cf_InfoPath (pr_cfg q)}"
        "os_files (wo_os s) f = Some x" for k q f x
      using teardown_files [of f "pr_cfg pr" ft pid "wo_os s"] apart [OF that(1-4) stop(3)] stop(4) that(5) by (simp add: touched_def)
    with stop \<open>lock_inv t\<close> show ?thesis unfolding stop(2) by (intro world_invI [OF inv]) simp_all
  next
    case (unlock pid pr code)
    have "pid \<notin> os_live (wo_os s)" using live unlock by simp
    with unlock \<open>lock_inv t\<close> show ?thesis unfolding unlock(2) by (intro world_invI [OF inv]) (simp_all add: call_files)
  next
    case (crash pid pr)
    with \<open>lock_inv t\<close> show ?thesis
      unfolding crash(2) by (intro world_invI [OF inv]) (simp_all add: reap_def close_listener_def)
  qed
qed

lemma world_run_inv:
  "separate allowed \<Longrightarrow> run (world_step allowed) s ls t \<Longrightarrow> world_inv allowed s \<Longrightarrow> world_inv allowed t"
  by (rotate_tac, induction rule: run.induct) (auto intro: world_inv_step)

lemma world_inv_fresh: "world_inv allowed (fresh_world files)"
  by (simp add: world_inv_def lock_inv_def fresh_world_def)

section \<open>Configurations of different homes\<close>

definition home_config :: "Config \<Rightarrow> bool" where
  "home_config cfg \<longleftrightarrow> (\<exists>ps getenv. homes ps getenv \<and> Default getenv = Inr cfg)"

definition config_at :: "string list \<Rightarrow> Config" where
  "config_at ps = \<lparr>cf_SocketPath = absolute (ps @ [''run'', ''waiting-room'', ''daemon.sock'']),
    cf_InfoPath = absolute (ps @ [''daemon.info'']), cf_LockPath = absolute (ps @ [''daemon.lock''])\<rparr>"

lemma home_configE:
  assumes "home_config cfg"
  obtains ps where "cfg = config_at ps" "\<forall>p \<in> set ps. component p" "ps \<noteq> []"
  using assms Default_home by (fastforce simp: home_config_def config_at_def homes_def)

lemma touched_at:
  "touched (config_at ps) = {absolute (ps @ [''run'', ''waiting-room'', ''daemon.sock'']), absolute (ps @ [''daemon.info'']),
     absolute (ps @ [''daemon.info.tmp'']), absolute (ps @ [''daemon.lock''])}"
  by (simp add: touched_def config_at_def tmp_of_def absolute_def)

lemma tmp_component [simp]: "component ''daemon.info.tmp''"
  by (simp add: component_def)

lemma separate_homes: "separate home_config"
  unfolding separate_def
proof (intro conjI allI impI)
  fix a b
  assume a: "home_config a" and b: "home_config b"
  obtain ps where ps: "a = config_at ps" "\<forall>p \<in> set ps. component p" "ps \<noteq> []" using a by (rule home_configE)
  obtain qs where qs: "b = config_at qs" "\<forall>p \<in> set qs. component p" "qs \<noteq> []" using b by (rule home_configE)
  have lock: "cf_LockPath a = cf_LockPath b \<longleftrightarrow> ps = qs"
    using ps qs by (simp add: config_at_def absolute_inject)
  show "a = b" if "cf_LockPath a = cf_LockPath b" using lock that ps qs by simp
  have last: "us @ [''run'', ''waiting-room'', ''daemon.sock''] \<noteq> vs @ [x]" if "x \<noteq> ''daemon.sock''" for us vs :: "string list" and x
    using that by (auto dest: arg_cong [of _ _ last])
  show "touched a \<inter> touched b = {}" if "cf_LockPath a \<noteq> cf_LockPath b"
    using lock that ps qs last last [symmetric] by (simp add: touched_at absolute_inject)
  show "CHR ''/'' \<in> set (cf_InfoPath a)" by (simp add: ps config_at_def absolute_def)
  have "tmp_of (cf_InfoPath a) = absolute (ps @ [''daemon.info.tmp''])" by (simp add: ps config_at_def tmp_of_def absolute_def)
  then show "distinct [cf_SocketPath a, cf_InfoPath a, tmp_of (cf_InfoPath a), cf_LockPath a]"
    using ps(2) last by (simp add: ps(1) config_at_def absolute_inject)
qed

end
