(* ===== verification/StartupProps.thy ===== *)
theory StartupProps
  imports StartupFacts CodecProps
begin

text \<open>
  The properties of the configuration, of the lock and the info file, and of several daemons on
  one machine.
\<close>

section \<open>Configuration\<close>

text \<open>
  C28: With \<open>WAITING_ROOM_HOME\<close> set to a clean absolute directory and no socket override, all
  three paths lie below that directory, whatever the rest of the environment, and two different
  homes share no path, even when one lies inside the other: instances are fully isolated.
\<close>

theorem homes_are_isolated:
  assumes "homes ps g" "homes qs g'" "ps \<noteq> qs"
  shows "\<exists>a b. Default g = Inr a \<and> Default g' = Inr b \<and> distinct (paths a) \<and> set (paths a) \<inter> set (paths b) = {} \<and>
    (\<exists>xs ys zs. paths a = [absolute (ps @ xs), absolute (ps @ ys), absolute (ps @ zs)])"
proof -
  obtain a b where ab: "Default g = Inr a" "Default g' = Inr b"
    using Default_home [OF assms(1)] Default_home [OF assms(2)] by blast
  have "\<exists>xs ys zs. paths a = [absolute (ps @ xs), absolute (ps @ ys), absolute (ps @ zs)]"
    using Default_home [OF assms(1)] ab(1) by (auto simp: paths_def)
  with ab paths_apart [OF assms(1,2) ab assms(3)] show ?thesis by blast
qed

definition sample_getenv :: "string \<Rightarrow> string \<Rightarrow> string" where
  "sample_getenv home name = (if name = ''WAITING_ROOM_HOME'' then home else [])"

lemma sample_homes: "homes [''a''] (sample_getenv ''/a'')" "homes [''a'', ''run''] (sample_getenv ''/a/run'')"
  by (simp_all add: homes_def sample_getenv_def component_def absolute_def)

theorem homes_are_isolated_witness:
  "\<exists>a b. Default (sample_getenv ''/a'') = Inr a \<and> Default (sample_getenv ''/a/run'') = Inr b \<and>
     set (paths a) \<inter> set (paths b) = {}"
  using homes_are_isolated [OF sample_homes] by auto

section \<open>The info file\<close>

text \<open>
  C15: Whatever calls fail and wherever a write stops, \<open>WriteInfo\<close> leaves a reader either what was
  there before or exactly the new information: after success \<open>ReadInfo\<close> returns the process id,
  the socket path, the version and the start time that were written; after a failure it
  returns what it returned before.
\<close>

theorem info_is_replaced_atomically:
  assumes "info_ok i" "CHR ''/'' \<in> set path" "WriteInfo fls off path i w = (r, w')"
  shows "ReadInfo Fine path w' = (if r = None then Inr i else ReadInfo Fine path w)"
proof (cases r)
  case None
  with WriteInfo_atomic(2) [OF assms(2,3)] unmarshal_marshal assms(1) show ?thesis
    by (auto simp: ReadInfo_def ReadFile_def)
next
  case (Some err)
  with WriteInfo_atomic(1) [OF assms(2,3)] show ?thesis by (simp add: ReadInfo_def ReadFile_def)
qed

definition sample_info :: Info where
  "sample_info = \<lparr>in_PID = 7, in_SocketPath = ''/h/s'', in_Version = ''dev'', in_StartedAt = 0\<rparr>"

definition empty_os :: OS where
  "empty_os = \<lparr>os_files = (\<lambda>p. None), os_locks = (\<lambda>p. None), os_live = {}\<rparr>"

theorem info_is_replaced_atomically_witness:
  "\<exists>w'. WriteInfo (Fine, Fine, Fine) 0 ''/h/i'' sample_info empty_os = (None, w') \<and> ReadInfo Fine ''/h/i'' w' = Inr sample_info"
proof -
  have "marshal_info 0 sample_info \<noteq> None"
    using epoch_text by (auto simp: marshal_info_def info_members_def sample_info_def)
  moreover have "ancestors (dirOf ''/h/i'') = [''/h'']" by (simp add: dirOf_def ancestors_def upt_rec)
  ultimately obtain w' where w: "WriteInfo (Fine, Fine, Fine) 0 ''/h/i'' sample_info empty_os = (None, w')"
    by (auto simp: WriteInfo_def MkdirAll_def WriteFile_def Rename_def Let_def empty_os_def tmp_of_def dirOf_def)
  have "info_ok sample_info" "CHR ''/'' \<in> set ''/h/i''" by (simp_all add: info_ok_def sample_info_def int64_def)
  from info_is_replaced_atomically [OF this w] w show ?thesis by simp
qed

section \<open>Several daemons\<close>

definition holders :: "World \<Rightarrow> string \<Rightarrow> pid set" where
  "holders s path = {pid. \<exists>pr. wo_procs s pid = Some pr \<and> cf_LockPath (pr_cfg pr) = path \<and> holding (pr_phase pr)}"

text \<open>
  C6: In every interleaving of any number of daemon processes, with any failing calls, crashes and
  socket overrides, at most one process per lock file is between taking the lock and releasing
  it: only it probes again, removes a stale socket, binds, and writes or removes the info file.
  The lock's owner is that process, and when there is none the lock is free: a crash leaves no
  lock behind.
\<close>

theorem one_daemon_per_lock:
  assumes "run (world_step allowed) (fresh_world files) ls s"
  shows "holders s path = set_option (os_locks (wo_os s) path)"
proof -
  have "lock_inv s" using assms locks.reachable_inv [of "fresh_world files"] by blast
  then show ?thesis by (auto simp: holders_def lock_inv_def)
qed

text \<open>A daemon at home \<open>/a\<close> that starts on an empty machine.\<close>

definition cfg_a :: Config where
  "cfg_a = \<lparr>cf_SocketPath = ''/a/run/waiting-room/daemon.sock'', cf_InfoPath = ''/a/daemon.info'', cf_LockPath = ''/a/daemon.lock''\<rparr>"

lemma config_a: "Default (sample_getenv ''/a'') = Inr cfg_a" "home_config cfg_a"
  "daemon_config (sample_getenv ''/a'') [] = Continue (cfg_a, True)"
proof -
  show d: "Default (sample_getenv ''/a'') = Inr cfg_a"
    using Default_home [OF sample_homes(1)] by (simp add: absolute_def cfg_a_def)
  then show "home_config cfg_a" using sample_homes(1) by (auto simp: home_config_def)
  show "daemon_config (sample_getenv ''/a'') [] = Continue (cfg_a, True)"
    using d by (simp add: daemon_config_def string_of_def bool_of_def)
qed

definition proc_a :: "daemon_phase \<Rightarrow> Proc" where
  "proc_a ph = \<lparr>pr_cfg = cfg_a, pr_phase = ph, pr_info = sample_info\<rparr>"

definition no_dial :: Dial where "no_dial = \<lparr>di_dialed = False, di_wrote = False, di_reply = []\<rparr>"

lemma dirs_a: "dirOf ''/a/daemon.lock'' = ''/a''" "dirOf ''/a/daemon.info'' = ''/a''" "ancestors ''/a'' = [''/a'']"
  "path_Dir ''/a/run/waiting-room/daemon.sock'' = ''/a/run/waiting-room''"
  "ancestors ''/a/run/waiting-room'' = [''/a'', ''/a/run'', ''/a/run/waiting-room'']"
  by (simp_all add: dirOf_def ancestors_def upt_rec path_Dir_def Clean_def)

definition locked_os :: OS where
  "locked_os = \<lparr>os_files = (\<lambda>p. None)(''/a'' \<mapsto> N_Dir 448, ''/a/daemon.lock'' \<mapsto> N_File 384 []),
     os_locks = (\<lambda>p. None)(''/a/daemon.lock'' \<mapsto> 1), os_live = {}\<rparr>"

lemma lock_a: "AcquireLock (Fine, Fine, Fine) 1 ''/a/daemon.lock'' empty_os = (None, locked_os)"
  by (simp add: AcquireLock_def MkdirAll_def OpenFile_def Flock_def dirs_a empty_os_def locked_os_def)

definition world_a :: "daemon_phase \<Rightarrow> OS \<Rightarrow> World" where
  "world_a ph w = \<lparr>wo_os = w, wo_procs = (\<lambda>pid. None)(1 \<mapsto> proc_a ph)\<rparr>"

lemma locked_run:
  assumes "allowed cfg_a"
  shows "run (world_step allowed) (fresh_world (\<lambda>p. None)) [W_Start 1, W_Probe 1, W_Lock 1] (world_a Starting locked_os)"
proof -
  have "world_step allowed (fresh_world (\<lambda>p. None)) (W_Start 1) (world_a Probing empty_os)"
    using world_step.start [of "fresh_world (\<lambda>p. None)" 1 _ _ cfg_a True allowed sample_info, OF _ config_a(3) assms]
    by (simp add: fresh_world_def world_a_def proc_a_def set_proc_def empty_os_def)
  moreover have "world_step allowed (world_a Probing empty_os) (W_Probe 1) (world_a Locking empty_os)"
    using world_step.probe [of "world_a Probing empty_os" 1 "proc_a Probing" no_dial allowed]
    by (simp add: world_a_def proc_a_def set_proc_def probe_ok_def no_dial_def DaemonAlive_iff)
  moreover have "world_step allowed (world_a Locking empty_os) (W_Lock 1) (world_a Starting locked_os)"
    using world_step.lock [of "world_a Locking empty_os" 1 "proc_a Locking" "(Fine, Fine, Fine)" None locked_os allowed] lock_a
    by (simp add: world_a_def proc_a_def set_proc_def cfg_a_def)
  ultimately show ?thesis by (intro run_Cons run.run_Nil) simp_all
qed

theorem one_daemon_per_lock_witness:
  "holders (world_a Starting locked_os) ''/a/daemon.lock'' = {1}"
  using one_daemon_per_lock [OF locked_run [of "\<lambda>c. True"], of "''/a/daemon.lock''"]
  by (simp add: world_a_def locked_os_def)

text \<open>
  C10: Daemons of isolated homes do not disturb one another: in every interleaving with crashes and
  failing calls, a serving daemon can be found and reached: its socket is bound to it, answers,
  and is private (mode 0600), and reading its info file yields what it wrote.
\<close>

theorem serving_daemon_is_discoverable:
  assumes "run (world_step home_config) (fresh_world files) ls s"
    and "wo_procs s pid = Some pr" "pr_phase pr = Serving" "info_ok (pr_info pr)"
  shows "os_files (wo_os s) (cf_SocketPath (pr_cfg pr)) = Some (N_Sock 384 pid) \<and>
    reachable (wo_os s) (cf_SocketPath (pr_cfg pr)) \<and>
    ReadInfo Fine (cf_InfoPath (pr_cfg pr)) (wo_os s) = Inr (pr_info pr)"
proof -
  have "world_inv home_config s" using world_run_inv [OF separate_homes assms(1) world_inv_fresh] .
  then have "has_socket (wo_os s) pid (pr_cfg pr)" "has_info (wo_os s) (pr_cfg pr) (pr_info pr)"
    using assms(2,3) unfolding world_inv_def by blast+
  then show ?thesis
    using unmarshal_marshal assms(4) by (auto simp: has_socket_def has_info_def reachable_def ReadInfo_def ReadFile_def)
qed

lemma start_a:
  "marshal_info 0 i = Some raw \<Longrightarrow>
     \<exists>w. run_start (\<lambda>n. Fine) (Fine, Fine, Fine) (Fine, Fine) no_dial 0 1 cfg_a i locked_os = (None, w)"
  by (simp add: run_start_def listen_def bind_socket_def Let_def no_dial_def DaemonAlive_iff MkdirAll_def Chmod_def Remove_def
      Listen_def WriteInfo_def WriteFile_def Rename_def dirs_a cfg_a_def locked_os_def tmp_of_def)

lemma serving_run:
  "\<exists>w. run (world_step home_config) (fresh_world (\<lambda>p. None)) ([W_Start 1, W_Probe 1, W_Lock 1] @ [W_Run 1]) (world_a Serving w)"
proof -
  obtain raw where raw: "marshal_info 0 sample_info = Some raw"
    using epoch_text by (auto simp: marshal_info_def info_members_def sample_info_def)
  from start_a [OF raw]
  obtain w where w: "run_start (\<lambda>n. Fine) (Fine, Fine, Fine) (Fine, Fine) no_dial 0 1 cfg_a sample_info locked_os = (None, w)"
    by blast
  have "world_step home_config (world_a Starting locked_os) (W_Run 1) (world_a Serving w)"
    using world_step.run [of "world_a Starting locked_os" 1 "proc_a Starting" no_dial "\<lambda>n. Fine" "(Fine, Fine, Fine)"
        "(Fine, Fine)" 0 None w home_config] w
    by (simp add: world_a_def proc_a_def set_proc_def probe_ok_def no_dial_def)
  then have "run (world_step home_config) (fresh_world (\<lambda>p. None)) ([W_Start 1, W_Probe 1, W_Lock 1] @ [W_Run 1]) (world_a Serving w)"
    using locked_run [of home_config, OF config_a(2)] by (rule run.run_snoc [rotated])
  then show ?thesis by blast
qed

theorem serving_daemon_is_discoverable_witness:
  "\<exists>w. reachable w ''/a/run/waiting-room/daemon.sock'' \<and> ReadInfo Fine ''/a/daemon.info'' w = Inr sample_info"
proof -
  obtain w where w: "run (world_step home_config) (fresh_world (\<lambda>p. None)) ([W_Start 1, W_Probe 1, W_Lock 1] @ [W_Run 1]) (world_a Serving w)"
    using serving_run by blast
  from serving_daemon_is_discoverable [OF w, of 1 "proc_a Serving"] show ?thesis
    by (auto simp: world_a_def proc_a_def cfg_a_def sample_info_def info_ok_def int64_def)
qed

end
