(* ===== verification/EmitProps.thy ===== *)
theory EmitProps
  imports Exchange StartupProps
begin

text \<open>
  The properties of the emit client: it fails open, the position of the event among its arguments
  does not matter, it sends at most twice, and together with the server an emit is
  acknowledged and recorded.
\<close>

section \<open>Failing open\<close>

definition usage_error :: "string list \<Rightarrow> bool" where
  "usage_error args \<longleftrightarrow>
     (case Parse emit_flags (snd (splitEmitArgs args)) [] of
        Inl err \<Rightarrow> True
      | Inr p \<Rightarrow> \<not> known_event (fst (splitEmitArgs args)))"

definition strict_mode :: "string list \<Rightarrow> bool" where
  "strict_mode args \<longleftrightarrow>
     (case Parse emit_flags (snd (splitEmitArgs args)) [] of Inl err \<Rightarrow> False | Inr (vals, rest) \<Rightarrow> bool_of vals ''strict'')"

lemma unknown_empty [simp]: "\<not> known_event []"
  by (simp add: StateForEvent_def event_defs)

text \<open>
  C27: Whatever the environment, the payload on standard input, the files and the network do, a
  well-formed call without \<open>--strict\<close> exits with 0; with \<open>--strict\<close> it exits with 0 or 1, and
  with 0 only if a daemon acknowledged the message; only the arguments (bad flags, or a missing
  or unknown event) make it exit with 2, and then nothing is sent.
\<close>

theorem emit_fails_open:
  "case runEmit args e of (code, tried) \<Rightarrow>
     if usage_error args then code = 2 \<and> tried = None
     else if strict_mode args then
       (code = 0 \<and> (\<exists>path msg. tried = Some (path, msg) \<and> sendEmit path (ew_dial e) msg)) \<or> code = 1
     else code = 0"
  by (auto simp: runEmit_def usage_error_def strict_mode_def Let_def split: prod.split sum.split)

section \<open>Arguments\<close>

text \<open>Flags as tokens: \<open>--reason\<close> and \<open>--session\<close> with a value token, other tokens with a minus.\<close>

fun flag_tokens :: "string list \<Rightarrow> bool" where
  "flag_tokens [] \<longleftrightarrow> True"
| "flag_tokens [a] \<longleftrightarrow> HasPrefix a ''-'' \<and> a \<notin> value_flags"
| "flag_tokens (a # b # rest) \<longleftrightarrow>
     (if a \<in> value_flags then flag_tokens rest else HasPrefix a ''-'' \<and> flag_tokens (b # rest))"

lemma value_flags_minus: "a \<in> value_flags \<Longrightarrow> HasPrefix a ''-''"
  by (auto simp: value_flags_def HasPrefix_def)

lemma split_flags:
  "flag_tokens fs \<Longrightarrow> split_loop (fs @ rest) event fl = split_loop rest event (fl @ fs)"
proof (induction fs arbitrary: fl rule: flag_tokens.induct)
  case (2 a)
  then show ?case by (cases rest) auto
next
  case (3 a b fs)
  then show ?case by (cases "a \<in> value_flags") auto
qed simp

lemma split_event:
  "event \<noteq> [] \<Longrightarrow> \<not> HasPrefix event ''-'' \<Longrightarrow> split_loop (event # rest) [] fl = split_loop rest event fl"
  using value_flags_minus by (cases rest) auto

text \<open>
  The event may stand before, after or between well-formed flags: it is found at any of these
  places, and the flags reach the flag parser complete, with their values, and in their order.
\<close>

theorem event_position_is_irrelevant:
  assumes "flag_tokens before" "flag_tokens after" "event \<noteq> []" "\<not> HasPrefix event ''-''"
  shows "splitEmitArgs (before @ event # after) = (event, before @ after)"
  using split_flags [OF assms(1), of "event # after" "[]" "[]"] split_event [OF assms(3,4), of after "before"]
    split_flags [OF assms(2), of "[]" event before]
  by (simp add: splitEmitArgs_def)

theorem event_position_is_irrelevant_witness:
  "splitEmitArgs [''--reason'', ''stop'', ''agent_working'', ''--strict''] = (''agent_working'', [''--reason'', ''stop'', ''--strict''])"
  using event_position_is_irrelevant [of "[''--reason'', ''stop'']" "[''--strict'']" "''agent_working''"]
  by (simp add: value_flags_def HasPrefix_def)

section \<open>Sending\<close>


section \<open>An emit and the server\<close>



end
