(* ===== verification/Clients.thy ===== *)
theory Clients
  imports Emit
begin

text \<open>
  The commands that show the daemon's state (\<open>daemon/cmd/waiting-room/watch.go\<close>,
  \<open>status.go\<close>) and the dispatch of \<open>main.go\<close>. What a command prints is a list with one entry for each
  call of a print function; the texts that the \<open>flag\<close> package itself prints are left out.
\<close>

datatype printed = Stdout string | Stderr string

definition Println :: "string \<Rightarrow> string" where "Println s = s @ [newline]"

section \<open>Finding and reaching the daemon\<close>

text \<open>
  The environment, the process id, the files, the probe of \<open>discoverSocket\<close>, the command's own
  connection (for \<open>status\<close> with the bytes that arrive within two seconds, for \<open>watch\<close> with
  those that arrive before the connection ends), and the clock's texts for \<open>watch\<close>.
\<close>

record Client =
  cl_getenv :: "string \<Rightarrow> string"
  cl_pid :: nat
  cl_fault :: fault
  cl_os :: OS
  cl_probe :: Dial
  cl_dial :: Dial
  cl_stamp :: "nat \<Rightarrow> string"

definition client_path :: "Client \<Rightarrow> string" where
  "client_path e = discoverSocket (cl_getenv e) (cl_fault e) (cl_os e) (cl_probe e)"

definition unreachable_text :: "string \<Rightarrow> string" where
  "unreachable_text path = Println (''waiting-room: cannot reach daemon at '' @ path @ '' (is it running?)'')"

definition orDash :: "string \<Rightarrow> string" where
  "orDash s = (if s = [] then ''-'' else s)"

section \<open>Watch\<close>

definition watch_flags :: flag_set where
  "watch_flags = [(''session'', StringFlag), (''any'', BoolFlag)]"

definition watch_mode :: "flag_values \<Rightarrow> string \<times> string" where
  "watch_mode vals =
     (if bool_of vals ''any'' then (''any'', [])
      else if string_of vals ''session'' \<noteq> [] then (''session'', string_of vals ''session'')
      else (''auto'', []))"

definition watch_subscribe :: "(string \<Rightarrow> string) \<Rightarrow> nat \<Rightarrow> string \<times> string \<Rightarrow> SubscribeMessage" where
  "watch_subscribe getenv pid how =
     \<lparr>e_V = Version, e_Type = ''subscribe'', sb_Mode = fst how, sb_SessionID = snd how,
      sb_ActivityID = ''watch-'' @ show_nat pid, sb_ActivityPane = getenv ''TMUX_PANE'',
      sb_TmuxSocket = (if getenv ''TMUX'' = [] then [] else tmux_socket (getenv ''TMUX'')), sb_Title = ''watch''\<rparr>"

definition watch_text :: "string \<Rightarrow> Message \<Rightarrow> string option" where
  "watch_text stamp msg =
     map_option (\<lambda>t. Println (CHR ''['' # stamp @ ''] '' @ t))
       (case msg of
          M_Hello m \<Rightarrow> Some (''connected (server '' @ he_ServerVersion m @ '')'')
        | M_Snapshot m \<Rightarrow> Some (''snapshot  session='' @ orDash (sn_SessionID m) @ '' state='' @ sn_State m)
        | M_StateChange m \<Rightarrow>
            Some (''session='' @ sc_SessionID m @ '' '' @ sc_From m @ '' -> '' @ sc_To m @ '' ('' @ orDash (sc_Reason m) @ '')'')
        | M_Dropped m \<Rightarrow> Some ''events dropped, resyncing''
        | M_Error m \<Rightarrow> Some (''error: '' @ er_Message m)
        | _ \<Rightarrow> None)"

text \<open>The loop: the clock is read once for each message that decodes.\<close>

fun watch_loop :: "(nat \<Rightarrow> string) \<Rightarrow> nat \<Rightarrow> string list \<Rightarrow> printed list" where
  "watch_loop stamp n [] = [Stdout (Println ''-- connection closed --'')]"
| "watch_loop stamp n (raw # ls) =
     (case Decode raw of
        Inl err \<Rightarrow> watch_loop stamp n ls
      | Inr m \<Rightarrow>
          (case watch_text (stamp n) m of
             None \<Rightarrow> watch_loop stamp (Suc n) ls
           | Some t \<Rightarrow> Stdout t # watch_loop stamp (Suc n) ls))"

definition runWatch :: "string list \<Rightarrow> Client \<Rightarrow> int \<times> printed list" where
  "runWatch args e =
     (case Parse watch_flags args [] of
        Inl err \<Rightarrow> (2, [])
      | Inr (vals, rest) \<Rightarrow>
          if \<not> di_dialed (cl_dial e) then (1, [Stderr (unreachable_text (client_path e))])
          else
            (case Encode 0 (M_Subscribe (watch_subscribe (cl_getenv e) (cl_pid e) (watch_mode vals))) of
               None \<Rightarrow> (1, [])
             | Some line \<Rightarrow>
                 if \<not> di_wrote (cl_dial e) then (1, [Stderr (Println ''waiting-room: connection closed'')])
                 else
                   (0, Stdout (Println (''watching '' @ client_path e @ '' (mode='' @ fst (watch_mode vals) @ '')'')) #
                      watch_loop (cl_stamp e) 0 (read_lines (di_reply (cl_dial e))))))"

section \<open>Status\<close>

text \<open>\<open>utf8.RuneCountInString\<close>, which \<open>%-24s\<close> measures with: an invalid byte counts for one.\<close>

function RuneCount :: "string \<Rightarrow> nat" where
  "RuneCount s =
     (if s = [] then 0 else Suc (RuneCount (drop (case rune_size s of None \<Rightarrow> 1 | Some n \<Rightarrow> n) s)))"
  by pat_completeness auto
termination
  by (relation "measure length") (auto split: option.split dest: rune_size_bounds)

declare RuneCount.simps [simp del]

definition pad_right :: "nat \<Rightarrow> string \<Rightarrow> string" where
  "pad_right width s = s @ replicate (width - RuneCount s) (CHR '' '')"

definition status_line :: "string \<Rightarrow> string \<Rightarrow> string \<Rightarrow> string \<Rightarrow> string" where
  "status_line a b c d = Println (pad_right 24 a @ '' '' @ pad_right 16 b @ '' '' @ pad_right 8 c @ '' '' @ d)"

definition status_row :: "SessionStatus \<Rightarrow> string" where
  "status_row s =
     status_line (st_SessionID s) (st_State s) (orDash (st_TmuxPane s)) (orDash (Join (st_BoundActivities s) '', ''))"

definition printStatus :: "StatusResponseMessage \<Rightarrow> printed list" where
  "printStatus st =
     (if sr_ServerVersion st \<noteq> [] then [Stdout (Println (''waiting-room daemon '' @ sr_ServerVersion st))] else []) @
     (if sr_Sessions st = [] then [Stdout (Println ''no sessions registered'')]
      else Stdout (status_line ''SESSION'' ''STATE'' ''PANE'' ''ACTIVITIES'') # map (\<lambda>s. Stdout (status_row s)) (sr_Sessions st))"

text \<open>The loop of \<open>runStatus\<close>: the first status among the lines that arrive in time.\<close>

fun await_status :: "string list \<Rightarrow> StatusResponseMessage option" where
  "await_status [] = None"
| "await_status (raw # ls) =
     (case Decode raw of
        Inl err \<Rightarrow> await_status ls
      | Inr (M_Status st) \<Rightarrow> Some st
      | Inr m \<Rightarrow> await_status ls)"

definition runStatus :: "string list \<Rightarrow> Client \<Rightarrow> int \<times> printed list" where
  "runStatus args e =
     (case Parse [] args [] of
        Inl err \<Rightarrow> (2, [])
      | Inr (vals, rest) \<Rightarrow>
          if \<not> di_dialed (cl_dial e) then (1, [Stderr (unreachable_text (client_path e))])
          else
            (case Encode 0 StatusRequest of
               None \<Rightarrow> (1, [Stderr (Println ''waiting-room: failed to encode status request'')])
             | Some line \<Rightarrow>
                 if \<not> di_wrote (cl_dial e) then (1, [Stderr (Println ''waiting-room: failed to send status request'')])
                 else
                   (case await_status (read_lines (di_reply (cl_dial e))) of
                      None \<Rightarrow> (1, [Stderr (Println ''waiting-room: no status response'')])
                    | Some st \<Rightarrow> (0, printStatus st))))"

section \<open>The dispatcher\<close>

definition usage_text :: string where
  "usage_text = concat (map Println
     [''waiting-room '' @ [CHR 0xE2, CHR 0x80, CHR 0x94] @ '' pause activities & refocus when Claude Code needs you.'',
      [], ''Usage:'', ''  waiting-room <command> [args]'', [], ''Commands:'',
      ''  daemon    Run the background IPC daemon'',
      ''  emit      Emit a lifecycle event (used by Claude Code hooks)'',
      ''  watch     Debug subscriber: print session state changes live'',
      ''  status    Show daemon + session registry status'',
      ''  version   Print version'',
      ''  help      Show this help''])"

text \<open>The subcommands are arguments; \<open>Quote\<close> is \<open>strconv.Quote\<close>.\<close>

type_synonym command = "string list \<Rightarrow> int \<times> printed list"

definition main_dispatch ::
  "(string \<Rightarrow> string) \<Rightarrow> string \<Rightarrow> command \<Rightarrow> command \<Rightarrow> command \<Rightarrow> command \<Rightarrow> command" where
  "main_dispatch Quote version daemon emit watch status argv =
     (if length argv < 2 then (2, [Stderr usage_text])
      else
        let c = argv ! 1; args = drop 2 argv in
        if c = ''version'' \<or> c = ''-v'' \<or> c = ''--version'' then (0, [Stdout (Println (''waiting-room '' @ version))])
        else if c = ''help'' \<or> c = ''-h'' \<or> c = ''--help'' then (0, [Stdout usage_text])
        else if c = ''daemon'' then daemon args
        else if c = ''emit'' then emit args
        else if c = ''watch'' then watch args
        else if c = ''status'' then status args
        else (2, [Stderr (Println (''waiting-room: unknown command '' @ Quote c)), Stderr usage_text]))"

end
