(* ===== verification/Launch.thy ===== *)
theory Launch
  imports Clients StartupFacts
begin

text \<open>
  \<open>Server.Run\<close> and \<open>runDaemon\<close> from beginning to end (\<open>daemon/internal/server/server.go\<close>,
  \<open>daemon/cmd/waiting-room/daemon.go\<close>), as functions on the files of the machine. What other processes
  and the served connections do to the files while the daemon serves is an argument.
\<close>

record Life =
  lf_getenv :: "string \<Rightarrow> string"
  lf_alive :: "OS \<Rightarrow> Dial"
  lf_lock :: "fault \<times> fault \<times> fault"
  lf_probe :: "OS \<Rightarrow> Dial"
  lf_listen :: "nat \<Rightarrow> fault"
  lf_write :: "fault \<times> fault \<times> fault"
  lf_remove :: "fault \<times> fault"
  lf_zone :: int
  lf_now :: Time
  lf_meanwhile :: "OS \<Rightarrow> OS"
  lf_acceptErr :: bool

definition run_info :: "string \<Rightarrow> Life \<Rightarrow> pid \<Rightarrow> Config \<Rightarrow> Info" where
  "run_info version e pid cfg =
     \<lparr>in_PID = int pid, in_SocketPath = cf_SocketPath cfg, in_Version = version, in_StartedAt = lf_now e\<rparr>"

text \<open>\<open>Run\<close>: whether it returns no error. It ends when the context is cancelled or accepting fails.\<close>

definition Run :: "string \<Rightarrow> Life \<Rightarrow> pid \<Rightarrow> Config \<Rightarrow> OS \<Rightarrow> bool \<times> OS" where
  "Run version e pid cfg w =
     (case run_start (lf_listen e) (lf_write e) (lf_remove e) (lf_probe e w) (lf_zone e) pid cfg
         (run_info version e pid cfg) w of
        (Some err, w1) \<Rightarrow> (False, w1)
      | (None, w1) \<Rightarrow> (\<not> lf_acceptErr e, teardown (lf_remove e) pid cfg (lf_meanwhile e w1)))"

text \<open>The exit code, what is printed to standard output, and the files afterwards.\<close>

definition runDaemon :: "string \<Rightarrow> string list \<Rightarrow> Life \<Rightarrow> pid \<Rightarrow> OS \<Rightarrow> int \<times> printed list \<times> OS" where
  "runDaemon version args e pid w =
     (case daemon_config (lf_getenv e) args of
        Exit code \<Rightarrow> (code, [], w)
      | Continue (cfg, janitor) \<Rightarrow>
          if DaemonAlive (lf_alive e w) then
            (0, [Stdout (Println (''waiting-room: daemon already running at '' @ cf_SocketPath cfg))], w)
          else
            (case AcquireLock (lf_lock e) pid (cf_LockPath cfg) w of
               (Some err, w1) \<Rightarrow> (1, [], w1)
             | (None, w1) \<Rightarrow>
                 (case Run version e pid cfg w1 of
                    (ok, w2) \<Rightarrow>
                      (if ok then 0 else 1,
                       [Stdout (Println (''waiting-room daemon '' @ version) @ Println (''  socket: '' @ cf_SocketPath cfg) @
                          Println (''  info:   '' @ cf_InfoPath cfg))],
                       Unlock (cf_LockPath cfg) w2))))"

section \<open>The sequential command is one of the interleaved processes\<close>

text \<open>The probes meet the machine, the machine is as the daemon left it when it stops serving.\<close>

definition undisturbed :: "Life \<Rightarrow> string \<Rightarrow> bool" where
  "undisturbed e path \<longleftrightarrow> lf_meanwhile e = id \<and> (\<forall>w. probe_ok w path (lf_alive e w) \<and> probe_ok w path (lf_probe e w))"

definition alone :: "pid \<Rightarrow> Proc \<Rightarrow> daemon_phase \<Rightarrow> OS \<Rightarrow> World \<Rightarrow> World" where
  "alone pid pr ph w s = s\<lparr>wo_os := w, wo_procs := (wo_procs s)(pid \<mapsto> pr\<lparr>pr_phase := ph\<rparr>)\<rparr>"

lemma alone_sel [simp]:
  "wo_os (alone pid pr ph w s) = w" "wo_procs (alone pid pr ph w s) pid = Some (pr\<lparr>pr_phase := ph\<rparr>)"
  "set_proc pid (pr\<lparr>pr_phase := ph\<rparr>) ph' w' (alone pid pr ph w s) = alone pid pr ph' w' s"
  by (simp_all add: alone_def set_proc_def)

lemma undisturbedD:
  "undisturbed e path \<Longrightarrow> lf_meanwhile e = id" "undisturbed e path \<Longrightarrow> probe_ok w path (lf_alive e w)"
  "undisturbed e path \<Longrightarrow> probe_ok w path (lf_probe e w)"
  by (simp_all add: undisturbed_def)

text \<open>The phases of the command, as steps of its process.\<close>

lemma alone_steps:
  fixes pr :: Proc and s :: World and w :: OS and pid :: pid
  defines "at ph \<equiv> alone pid pr ph w s"
  shows "probe_ok w (cf_SocketPath (pr_cfg pr)) d \<Longrightarrow>
      world_step allowed (at Probing) (W_Probe pid) (alone pid pr (if DaemonAlive d then Exited 0 else Locking) w s)"
    and "AcquireLock fls pid (cf_LockPath (pr_cfg pr)) w = (r, w') \<Longrightarrow>
      world_step allowed (at Locking) (W_Lock pid) (alone pid pr (if r = None then Starting else Exited 1) w' s)"
    and "probe_ok w (cf_SocketPath (pr_cfg pr)) d \<Longrightarrow> run_start fl fi ft d off pid (pr_cfg pr) (pr_info pr) w = (r', w') \<Longrightarrow>
      world_step allowed (at Starting) (W_Run pid) (alone pid pr (if r' = None then Serving else Stopped 1) w' s)"
    and "code = 0 \<or> code = 1 \<Longrightarrow>
      world_step allowed (at Serving) (W_Stop pid) (alone pid pr (Stopped code) (teardown ft pid (pr_cfg pr) w) s)"
    and "world_step allowed (at (Stopped c)) (W_Unlock pid) (alone pid pr (Exited c) (Unlock (cf_LockPath (pr_cfg pr)) w) s)"
proof -
  have eq: "alone pid pr ph' w' s = set_proc pid (pr\<lparr>pr_phase := ph\<rparr>) ph' w' (at ph)" for ph ph' w'
    by (simp add: at_def)
  have wo: "wo_procs (at ph) pid = Some (pr\<lparr>pr_phase := ph\<rparr>)" "wo_os (at ph) = w" for ph by (simp_all add: at_def)
  show "world_step allowed (at Probing) (W_Probe pid) (alone pid pr (if DaemonAlive d then Exited 0 else Locking) w s)"
    if "probe_ok w (cf_SocketPath (pr_cfg pr)) d"
    using world_step.probe [of "at Probing" pid "pr\<lparr>pr_phase := Probing\<rparr>" d allowed] that unfolding wo eq [of _ _ Probing] by simp
  show "world_step allowed (at Locking) (W_Lock pid) (alone pid pr (if r = None then Starting else Exited 1) w' s)"
    if "AcquireLock fls pid (cf_LockPath (pr_cfg pr)) w = (r, w')"
    using world_step.lock [of "at Locking" pid "pr\<lparr>pr_phase := Locking\<rparr>" fls r w' allowed] that unfolding wo eq [of _ _ Locking] by simp
  show "world_step allowed (at Starting) (W_Run pid) (alone pid pr (if r' = None then Serving else Stopped 1) w' s)"
    if "probe_ok w (cf_SocketPath (pr_cfg pr)) d" "run_start fl fi ft d off pid (pr_cfg pr) (pr_info pr) w = (r', w')"
    using world_step.run [of "at Starting" pid "pr\<lparr>pr_phase := Starting\<rparr>" d fl fi ft off r' w' allowed] that
    unfolding wo eq [of _ _ Starting] by simp
  show "world_step allowed (at Serving) (W_Stop pid) (alone pid pr (Stopped code) (teardown ft pid (pr_cfg pr) w) s)"
    if "code = 0 \<or> code = 1"
    using world_step.stop [of "at Serving" pid "pr\<lparr>pr_phase := Serving\<rparr>" code allowed ft] that unfolding wo eq [of _ _ Serving] by simp
  show "world_step allowed (at (Stopped c)) (W_Unlock pid) (alone pid pr (Exited c) (Unlock (cf_LockPath (pr_cfg pr)) w) s)"
    using world_step.unlock [of "at (Stopped c)" pid "pr\<lparr>pr_phase := Stopped c\<rparr>" c allowed] unfolding wo eq [of _ _ "Stopped c"] by simp
qed

text \<open>From the phase \<open>ph\<close> with the files \<open>w\<close>, the process exits with \<open>code\<close> and leaves the files \<open>w'\<close>.\<close>

definition exits :: "(Config \<Rightarrow> bool) \<Rightarrow> World \<Rightarrow> pid \<Rightarrow> int \<Rightarrow> OS \<Rightarrow> bool" where
  "exits allowed s pid code w \<longleftrightarrow>
     (\<exists>ls t. run (world_step allowed) s ls t \<and> wo_os t = w \<and> map_option pr_phase (wo_procs t pid) = Some (Exited code))"

lemma exits_now: "exits allowed (alone pid pr (Exited code) w s) pid code w"
  unfolding exits_def by (rule exI [of _ "[]"], rule exI [of _ "alone pid pr (Exited code) w s"]) (simp add: run.run_Nil)

lemma exits_step: "world_step allowed s l t \<Longrightarrow> exits allowed t pid code w \<Longrightarrow> exits allowed s pid code w"
  unfolding exits_def by (blast intro: run_Cons)

lemma exits_run:
  assumes "Run version e pid (pr_cfg pr) w = (ok, w')" "pr_info pr = run_info version e pid (pr_cfg pr)"
    and "undisturbed e (cf_SocketPath (pr_cfg pr))"
  shows "exits allowed (alone pid pr Starting w s) pid (if ok then 0 else 1) (Unlock (cf_LockPath (pr_cfg pr)) w')"
proof -
  let ?cfg = "pr_cfg pr"
  obtain r w1 where start: "run_start (lf_listen e) (lf_write e) (lf_remove e) (lf_probe e w) (lf_zone e) pid ?cfg
      (pr_info pr) w = (r, w1)" by fastforce
  note step = alone_steps(3) [OF undisturbedD(3) [OF assms(3)] start, of allowed s]
  have "exits allowed (alone pid pr (if r = None then Serving else Stopped 1) w1 s) pid (if ok then 0 else 1)
      (Unlock (cf_LockPath ?cfg) w')"
  proof (cases r)
    case None
    with assms start have w': "w' = teardown (lf_remove e) pid ?cfg w1" by (simp add: Run_def undisturbedD(1))
    have "exits allowed (alone pid pr Serving w1 s) pid (if ok then 0 else 1) (Unlock (cf_LockPath ?cfg) w')"
      unfolding w' by (rule exits_step [OF alone_steps(4) exits_step [OF alone_steps(5) exits_now]]) simp
    with None show ?thesis by simp
  next
    case (Some err)
    with assms(1,2) start have "w' = w1" "\<not> ok" by (simp_all add: Run_def)
    with Some show ?thesis by (simp add: exits_step [OF alone_steps(5) exits_now])
  qed
  with step show ?thesis by (rule exits_step)
qed

lemma runDaemon_exits:
  assumes "daemon_config (lf_getenv e) args = Continue (cfg, janitor)" "allowed cfg" "wo_procs s pid = None"
    and "undisturbed e (cf_SocketPath cfg)" "runDaemon version args e pid (wo_os s) = (code, out, w)"
  shows "exits allowed s pid code w"
proof -
  define pr where "pr = \<lparr>pr_cfg = cfg, pr_phase = Probing, pr_info = run_info version e pid cfg\<rparr>"
  have pr: "pr_cfg pr = cfg" "pr_info pr = run_info version e pid cfg" by (simp_all add: pr_def)
  have "world_step allowed s (W_Start pid) (alone pid pr Probing (wo_os s) s)"
    using world_step.start [where allowed = allowed, OF assms(3,1,2), of "run_info version e pid cfg"] by (simp add: alone_def set_proc_def pr_def)
  moreover note probe = alone_steps(1) [of "wo_os s" pr "lf_alive e (wo_os s)" allowed pid s, unfolded pr, OF undisturbedD(2) [OF assms(4)]]
  moreover have "exits allowed (alone pid pr (if DaemonAlive (lf_alive e (wo_os s)) then Exited 0 else Locking) (wo_os s) s) pid code w"
  proof (cases "DaemonAlive (lf_alive e (wo_os s))")
    case True
    with assms(1,5) have "code = 0" "w = wo_os s" by (simp_all add: runDaemon_def)
    with True show ?thesis by (simp add: exits_now)
  next
    case False
    obtain r w1 where lock: "AcquireLock (lf_lock e) pid (cf_LockPath (pr_cfg pr)) (wo_os s) = (r, w1)" by fastforce
    note step = alone_steps(2) [OF lock, of allowed s]
    have "exits allowed (alone pid pr (if r = None then Starting else Exited 1) w1 s) pid code w"
    proof (cases r)
      case None
      obtain ok w2 where run: "Run version e pid (pr_cfg pr) w1 = (ok, w2)" by fastforce
      with None lock False assms(1,5) have "code = (if ok then 0 else 1)" "w = Unlock (cf_LockPath (pr_cfg pr)) w2"
        by (simp_all add: runDaemon_def pr)
      with None exits_run [OF run pr(2) [folded pr(1)], of allowed s] assms(4) show ?thesis by (simp add: pr)
    next
      case (Some err)
      with lock False assms(1,5) have "code = 1" "w = w1" by (simp_all add: runDaemon_def pr)
      with Some show ?thesis by (simp add: exits_now)
    qed
    with False step show ?thesis by (simp add: exits_step)
  qed
  ultimately show ?thesis by (blast intro: exits_step)
qed

end
