(* ===== verification/ClientProps.thy ===== *)
theory ClientProps
  imports Exchange Launch StartupProps
begin

text \<open>
  The properties of the commands that show the daemon's state and of the daemon command as a whole.
\<close>

section \<open>Lines from the future\<close>

lemma await_ack_skips: "Decode bad = Inl err \<Longrightarrow> await_ack (xs @ bad # ys) = await_ack (xs @ ys)"
  by (induction xs) (auto split: sum.splits Message.splits)

lemma await_status_skips: "Decode bad = Inl err \<Longrightarrow> await_status (xs @ bad # ys) = await_status (xs @ ys)"
  by (induction xs) (auto split: sum.splits Message.splits)

lemma watch_loop_skips: "Decode bad = Inl err \<Longrightarrow> watch_loop stamp n (xs @ bad # ys) = watch_loop stamp n (xs @ ys)"
  by (induction xs arbitrary: n) (auto split: sum.splits option.splits)

text \<open>
  A line the protocol does not know, be it malformed, of another version or of an unknown
  type, changes nothing of what the clients do with the other lines, wherever it arrives: what
  \<open>emit\<close> reports, what \<open>status\<close> shows and what \<open>watch\<close> prints, the time stamps included.
\<close>

theorem unknown_lines_are_skipped:
  assumes "Decode bad = Inl err"
  shows "await_ack (xs @ bad # ys) = await_ack (xs @ ys) \<and> await_status (xs @ bad # ys) = await_status (xs @ ys) \<and>
    watch_loop stamp n (xs @ bad # ys) = watch_loop stamp n (xs @ ys)"
  using assms by (simp add: await_ack_skips await_status_skips watch_loop_skips)

lemma question_mark: "parse_value (Suc n) d [CHR ''?'', newline] = None"
  by (simp add: skip_space_def is_space_def dquote_def literal_def HasPrefix_def scan_number_def scan_int_def is_digit_def)

theorem unknown_lines_are_skipped_witness:
  "watch_loop (\<lambda>n. ''12:00:00'') 0 [''?'' @ [newline]] = [Stdout (Println ''-- connection closed --'')]"
proof -
  have "Decode (''?'' @ [newline]) = Inl BadJson" using question_mark [of 3] by (simp add: Decode_def parse_text_def)
  from unknown_lines_are_skipped [OF this, of "[]" "[]" "\<lambda>n. ''12:00:00''" 0] show ?thesis by simp
qed

section \<open>Status\<close>

definition status_of :: "Runtime \<Rightarrow> Core \<Rightarrow> StatusResponseMessage" where
  "status_of rt c = \<lparr>e_V = Version, e_Type = ''status'', sr_ServerVersion = co_version c,
     sr_Sessions = map (\<lambda>(n, s). session_status (rt_table rt n) c s)
       (List.enumerate 0 (List_sessions (rt_sessions rt 0) (co_reg c)))\<rparr>"

lemma status_answer:
  "Handle rt sk StatusRequest c = c\<lparr>co_sent := co_sent c @ [(sk, M_Status (status_of rt c))]\<rparr>"
  by (simp add: Handle_def StatusRequest_def handleStatus_def status_of_def Send_def Let_def)

lemma StatusRequest_facts: "transparent StatusRequest" "Encode off StatusRequest \<noteq> None"
  by (simp_all add: transparent_def well_tagged_def envelope_def type_tag_def Env_def Envelope.defs writable_def
      meta_of_def content_ok_def StatusRequest_def Encode_def message_members_def)

text \<open>
  C23: When the daemon's own user runs \<open>status\<close> and the connection carries the bytes both ways, the
  command exits with 0 and prints exactly the table of the sessions in the registry at that
  moment, and asking changes nothing in the daemon but what has been sent.
\<close>

theorem status_shows_the_registry:
  assumes "fresh_link getuid sk answer s" "all_written en" "all_written en'"
    and "transparent (M_Status (status_of (en_rt en') (sv_handler s)))"
    and "Encode (en_zone en') (M_Status (status_of (en_rt en') (sv_handler s))) = Some bytes"
    and "Encode 0 StatusRequest = Some line"
    and "cl_dial e = \<lparr>di_dialed = True, di_wrote = True, di_reply = bytes_to sk (exchange getuid en en' sk answer line s)\<rparr>"
  shows "runStatus [] e = (0, printStatus (status_of (en_rt en') (sv_handler s))) \<and>
    co_reg (sv_handler (exchange getuid en en' sk answer line s)) = co_reg (sv_handler s) \<and>
    co_bus (sv_handler (exchange getuid en en' sk answer line s)) = co_bus (sv_handler s)"
proof -
  have sends: "new_sends (sv_handler s) (Handle (en_rt en') sk StatusRequest (sv_handler s)) =
      [(sk, M_Status (status_of (en_rt en') (sv_handler s)))]"
    by (simp add: status_answer new_sends_def)
  note reply = exchange_reply [OF assms(1-3,6) StatusRequest_facts(1) sends assms(5,4)]
  from map_Decode_two [OF reply(2)]
  have "await_status (read_lines (di_reply (cl_dial e))) = Some (status_of (en_rt en') (sv_handler s))"
    by (auto simp: assms(7) Hello_def)
  with reply(1) assms(6,7) show ?thesis by (simp add: runStatus_def status_answer)
qed

text \<open>A daemon with one session, asked by its own user.\<close>

definition listed_server :: "Core Server" where
  "listed_server = accept (New \<lparr>op_SocketPath = ''/s'', op_InfoPath = [], op_Version = ''dev''\<rparr>
     (NewCore ''dev'' None\<lparr>co_reg := [(''s1'', fresh_Session ''s1'' 0)]\<rparr>))"

definition asking :: "string \<Rightarrow> Client" where
  "asking line = \<lparr>cl_getenv = (\<lambda>name. []), cl_pid = 5, cl_fault = Fine,
     cl_os = \<lparr>os_files = (\<lambda>p. None), os_locks = (\<lambda>p. None), os_live = {}\<rparr>,
     cl_probe = \<lparr>di_dialed = False, di_wrote = False, di_reply = []\<rparr>,
     cl_dial = \<lparr>di_dialed = True, di_wrote = True,
       di_reply = bytes_to 0 (exchange 1000 (sample_env 0) (sample_env 1) 0 own_peer line listed_server)\<rparr>,
     cl_stamp = (\<lambda>n. [])\<rparr>"

lemma sample_env_sel: "en_rt (sample_env n) = sample_rt" "en_zone (sample_env n) = 0"
  by (simp_all add: sample_env_def)

lemma listed_status:
  "status_of sample_rt (sv_handler listed_server) =
     \<lparr>e_V = Version, e_Type = ''status'', sr_ServerVersion = ''dev'', sr_Sessions =
       [\<lparr>st_SessionID = ''s1'', st_State = StateUnknown, st_TmuxPane = [], st_TmuxSession = [], st_BoundActivities = [],
         st_LastEventAt = 0\<rparr>]\<rparr>"
  by (simp add: status_of_def listed_server_def accept_def New_def NewCore_def sample_rt_def List_sessions_def
      session_status_def listSubs_def fresh_Session_def)

theorem status_shows_the_registry_witness:
  "\<exists>line. runStatus [] (asking line) =
     (0, [Stdout (Println ''waiting-room daemon dev''), Stdout (status_line ''SESSION'' ''STATE'' ''PANE'' ''ACTIVITIES''),
          Stdout (status_line ''s1'' StateUnknown ''-'' ''-'')])"
proof -
  obtain line where line: "Encode 0 StatusRequest = Some line" using StatusRequest_facts(2) by blast
  have ok: "transparent (M_Status (status_of sample_rt (sv_handler listed_server)))"
    by (simp add: listed_status transparent_def well_tagged_def envelope_def type_tag_def Env_def Envelope.defs writable_def
        meta_of_def content_ok_def session_ok_def StateUnknown_def)
  obtain bytes where bytes: "Encode 0 (M_Status (status_of sample_rt (sv_handler listed_server))) = Some bytes"
    using epoch_text by (auto simp: listed_status Encode_def message_members_def status_value_def)
  have fresh: "fresh_link 1000 0 own_peer listed_server"
    by (simp add: fresh_link_def listed_server_def accept_def New_def vouched_def)
  have "runStatus [] (asking line) = (0, printStatus (status_of sample_rt (sv_handler listed_server)))"
    using status_shows_the_registry [OF fresh sample_link(2) [of 0] sample_link(2) [of 1], unfolded sample_env_sel, OF ok bytes line, of "asking line"]
    by (simp add: asking_def)
  then show ?thesis by (intro exI [of _ line]) (simp add: listed_status printStatus_def status_row_def orDash_def)
qed

section \<open>The daemon command\<close>


text \<open>A daemon at home \<open>/a\<close> on an empty machine: it serves, is interrupted, and exits.\<close>

definition life_a :: Life where
  "life_a = \<lparr>lf_getenv = sample_getenv ''/a'', lf_alive = (\<lambda>w. no_dial), lf_lock = (Fine, Fine, Fine),
     lf_probe = (\<lambda>w. no_dial), lf_listen = (\<lambda>n. Fine), lf_write = (Fine, Fine, Fine), lf_remove = (Fine, Fine),
     lf_zone = 0, lf_now = 0, lf_meanwhile = id, lf_acceptErr = False\<rparr>"

lemma run_a: "\<exists>w. Run ''dev'' life_a 1 cfg_a locked_os = (True, w)"
proof -
  obtain raw where raw: "marshal_info 0 (run_info ''dev'' life_a 1 cfg_a) = Some raw"
    using epoch_text by (auto simp: marshal_info_def info_members_def run_info_def life_a_def)
  have life: "lf_listen life_a = (\<lambda>n. Fine)" "lf_write life_a = (Fine, Fine, Fine)" "lf_remove life_a = (Fine, Fine)"
    "lf_probe life_a w = no_dial" "lf_zone life_a = 0" "\<not> lf_acceptErr life_a" for w
    by (simp_all add: life_a_def)
  from start_a [OF raw] show ?thesis by (auto simp: Run_def life)
qed


end
