(* ===== verification/Spec2Isabelle.thy ===== *)
theory Spec2Isabelle
  imports RegistryProps BusProps DaemonProps QuietProps EmitProps ClientProps
begin

text \<open>
  Verification of the Waiting Room daemon (\<open>src/daemon\<close>, written in Go).

  \<^bold>\<open>The program.\<close> Hooks of Claude Code run \<open>waiting-room emit\<close>, a one-shot client that reports the
  lifecycle events of a coding session. A background daemon keeps one record per session, tells
  subscribed activities (games, readers) when a session starts to work or needs attention, and
  focuses the right tmux pane. The messages are lines of JSON over a Unix socket.

  \<^bold>\<open>How the parts interact.\<close> The server accepts a connection, checks the peer's user id, and hands each
  decoded line to the core. The core applies an emit to the registry, acks it, publishes a
  state change on the bus and starts a goroutine that re-binds unbound subscriptions and moves the
  focus. The bus keeps a buffer of 64 messages and a pump goroutine per subscription; a full buffer
  raises a flag, and the pump then sends a notice and a fresh snapshot. A janitor sets sessions to
  unknown whose pane is gone. A lock file keeps a second daemon of the same home from starting; an
  info file tells clients where the socket is. \<open>emit\<close>, \<open>watch\<close> and \<open>status\<close> are the clients.

  \<^bold>\<open>The library.\<close>
  \<^item> \<open>Prelude\<close>: association lists as Go maps, map iteration in any order (\<open>visit\<close>), time, durations and
    strings, runs of step relations and the interface \<open>invariant_system\<close>.
  \<^item> \<open>Wire\<close> (\<open>wire.go\<close>): messages and constructors, with the embedded envelope as a record that each
    message extends.
  \<^item> \<open>JsonString\<close>, \<open>Json\<close>, \<open>Rfc3339\<close>: what the code uses of \<open>encoding/json\<close> and \<open>time\<close>: string literals and UTF-8,
    a scanner and parser with Go's nesting limit, compact and indented printers, numbers, and the
    text of an instant.
  \<^item> \<open>Codec\<close>, \<open>CodecFacts\<close>, \<open>Framing\<close>, \<open>RoundTrip\<close>, \<open>CodecProps\<close> (\<open>Encode\<close>, \<open>Decode\<close> of \<open>wire.go\<close>): the struct tags as lists of
    members and fields, the lines of a stream, and reading back what was written.
  \<^item> \<open>Session\<close>, \<open>Convergence\<close>, \<open>RegistryProps\<close> (\<open>registry.go\<close>, \<open>gc.go\<close>): \<open>Apply\<close>, the queries, \<open>GC\<close>; the interface
    \<open>lww_store\<close> of a last-writer-wins store with its proof of convergence, interpreted on \<open>Apply\<close>.
  \<^item> \<open>Bus\<close>, \<open>Subscriptions\<close>, \<open>BusProps\<close> (\<open>bus.go\<close>): a heap of subscriptions, the operations, and the pump as a
    step relation; the interface \<open>pubsub\<close> the core relies on.
  \<^item> \<open>Tmux\<close> (\<open>tmux.go\<close>): the command lines and the parser of tmux's answers; running tmux is a parameter, and the interface
    \<open>controller\<close> states what the core relies on.
  \<^item> \<open>Core\<close>, \<open>CoreFacts\<close>, \<open>CoreProps\<close>, \<open>HandlerProps\<close> (\<open>core.go\<close>): one definition per handler; the goroutines a handler starts are
    tasks in the state.
  \<^item> \<open>Janitor\<close> (\<open>janitor.go\<close>), \<open>Daemon\<close>, \<open>DaemonProps\<close>, \<open>Quiet\<close>, \<open>QuietProps\<close>: the sweep, and the interleaving of
    connections, tasks, pumps and sweeps as a step relation, one step per critical section.
  \<^item> \<open>Conn\<close>, \<open>Server\<close>, \<open>ServerCore\<close>, \<open>ServerProps\<close> (\<open>server.go\<close>, \<open>auth_linux.go\<close>, \<open>auth_darwin.go\<close>): one connection with its writes,
    the goroutine \<open>serve\<close> as functions and as steps, the interface \<open>handler_contract\<close> between server and
    handler, and its interpretation on the core.
  \<^item> \<open>Files\<close>, \<open>Config\<close>, \<open>Flags\<close>, \<open>Lifecycle\<close>, \<open>Startup\<close>, \<open>StartupFacts\<close>, \<open>StartupProps\<close> (\<open>config.go\<close>, \<open>lifecycle.go\<close>, \<open>daemon.go\<close>, and
    \<open>listen\<close>, \<open>Run\<close>, \<open>teardown\<close> of \<open>server.go\<close>): file operations that can fail or stop half-way, and several daemon
    processes on one machine that may crash.
  \<^item> \<open>Emit\<close>, \<open>Exchange\<close>, \<open>EmitProps\<close>, \<open>Clients\<close>, \<open>Launch\<close>, \<open>ClientProps\<close> (\<open>emit.go\<close>, \<open>watch.go\<close>, \<open>status.go\<close>, \<open>main.go\<close>, \<open>daemon.go\<close>): the
    commands, from their arguments to exit code and output, against the server.
  \<^item> \<open>Samples\<close>: the concrete states that the properties with hypotheses are applied to.

  \<^bold>\<open>What the lemmas show.\<close> The registry converges: order, repetition and time of delivery of a set of emits do
  not matter. Subscriptions lose nothing silently, deliver in order, and are gone with their
  connection. The focus ends on the current state whatever the interleaving, and the daemon's own
  work terminates. A foreign user's connection gets and causes nothing. Encoding and decoding
  are inverse, frames are never torn, and requests are served once and in order. At most
  one daemon holds a lock, a serving daemon can be found, and the info file is replaced
  atomically. Emit fails open, and client and server agree on what was recorded.

  \<^bold>\<open>Conventions.\<close> The order in which Go visits a map, readings of the clock, results of writes, faults of file
  operations, answers of tmux and of the kernel are arguments of the definitions, so that a
  property holds for all of them. Integers that cannot overflow in the code's use are \<open>int\<close>; the
  saturation of \<open>time.Time.Sub\<close>, the 64-bit range of JSON integers and the 32-bit user ids are
  written out.

  \<^bold>\<open>Bounds and fuel.\<close> The JSON parser recurses with twice the length of the text as fuel; the lemma
  \<open>parse_value_enough\<close> shows that more fuel never changes the result for any text. Its nesting limit is Go's, 10000. All other loops
  are total functions with a measure; the accept loop, the pumps and the janitor's loop, which do
  not end, are step relations.

  \<^bold>\<open>Not modelled.\<close> Log lines, the texts the flag package prints, and deadlines other than by their effect
  (a read or write that fails, bytes that do not arrive in time) are left out. Map keys of a
  decoded \<open>meta\<close> are kept in the order in which they arrive. The time zone is one
  offset per call. The TypeScript packages, the Claude Code plugin, scripts and documents are not
  part of the daemon.
\<close>

end
